theory Spec2Isabelle
  imports Main "HOL-Library.Word"
begin

section \<open>Values as the symbol table sees them\<close>

text \<open>
  The symbol table of Eidos (\<^verbatim>\<open>eidos_symbol_table.cpp\<close>) stores shared pointers
  \<^verbatim>\<open>EidosValue_SP\<close>. Of a value it reads the intrusive reference count
  (\<^verbatim>\<open>use_count()\<close>) and the invisible flag (\<^verbatim>\<open>Invisible()\<close>); the element storage
  is opaque to it and is a type parameter here.
\<close>

type_synonym EidosGlobalStringID = "32 word"

record 'e EidosValue =
  elements :: 'e
  invisible :: bool
  use_count :: nat

text \<open>
  Modelled from the spec: \<^verbatim>\<open>EidosValue::CopyValues\<close> is defined in
  \<^verbatim>\<open>eidos_value.cpp\<close>, which is not among the sources. The specification describes it
  as "a deep copy of element storage, producing a new value with refcount 0"; the comment
  at its two call sites here ("If the value is invisible then we copy it, since the symbol
  table never stores invisible values") says that the copy is not invisible.
\<close>

definition CopyValues :: "'e EidosValue \<Rightarrow> 'e EidosValue" where
  "CopyValues v = \<lparr>elements = elements v, invisible = False, use_count = 0\<rparr>"

text \<open>Assigning a fresh value to an \<^verbatim>\<open>EidosValue_SP\<close> takes one reference to it.\<close>

definition retain :: "'e EidosValue \<Rightarrow> 'e EidosValue" where
  "retain v = v\<lparr>use_count := Suc (use_count v)\<rparr>"

text \<open>
  The first statement of \<^verbatim>\<open>SetValueForSymbol\<close> and the last but one of
  \<^verbatim>\<open>DefineConstantForSymbol\<close>:
  \<^verbatim>\<open>if ((p_value->use_count() != 1) || p_value->Invisible()) p_value = p_value->CopyValues();\<close>
\<close>

definition copy_unless_unique :: "'e EidosValue \<Rightarrow> 'e EidosValue" where
  "copy_unless_unique p_value =
     (if use_count p_value \<noteq> 1 \<or> invisible p_value then retain (CopyValues p_value)
      else p_value)"

section \<open>Symbol tables and chains of them\<close>

datatype EidosSymbolTableType =
  kEidosIntrinsicConstantsTable | kEidosDefinedConstantsTable | kVariablesTable

text \<open>
  A table has the fields of the class. \<open>internal_symbols\<close> holds the first
  \<^verbatim>\<open>internal_symbol_count_\<close> slots of the fixed array, so the count is its length.
  \<open>hash_symbols\<close> is the \<^verbatim>\<open>std::unordered_map\<close>, kept as an association list that is
  read with \<^const>\<open>map_of\<close>; its order stands for the unspecified iteration order.
  The parent pointer is the position in a chain: a chain is the list of tables from the
  one a method is called on to the root, and the empty chain is the null parent pointer.
\<close>

type_synonym 'e slots = "(EidosGlobalStringID \<times> 'e EidosValue) list"

record 'e EidosSymbolTable =
  table_type :: EidosSymbolTableType
  using_internal_symbols :: bool
  internal_symbols :: "'e slots"
  hash_symbols :: "'e slots"

type_synonym 'e chain = "'e EidosSymbolTable list"

datatype error =
  UndefinedIdentifier EidosGlobalStringID
  | RedefinitionOfConstant EidosGlobalStringID
  | NoCopyInvisible
  | AlreadyDefined EidosGlobalStringID
  | NoChildOfIntrinsic
  | IntrinsicNotRemovable EidosGlobalStringID
  | ConstantNotRemovable EidosGlobalStringID
  | InitInvisible
  | InitOnVariables
  | ConstructorCheck

text \<open>
  The loop that every method runs over the internal array:
  \<^verbatim>\<open>for (i = (int)internal_symbol_count_ - 1; i >= 0; --i) if (internal_symbols_[i].symbol_name_ == p_symbol_name) ...\<close>
  The third argument is one more than the index the loop is at; the result is the index at
  which the loop stops, or \<open>None\<close> when it runs down to \<open>-1\<close>.
\<close>

fun scan_internal :: "'e slots \<Rightarrow> EidosGlobalStringID \<Rightarrow> nat \<Rightarrow> nat option" where
  "scan_internal sl p_symbol_name 0 = None"
| "scan_internal sl p_symbol_name (Suc symbol_index) =
     (if fst (sl ! symbol_index) = p_symbol_name then Some symbol_index
      else scan_internal sl p_symbol_name symbol_index)"

definition find_slot :: "'e EidosSymbolTable \<Rightarrow> EidosGlobalStringID \<Rightarrow> nat option" where
  "find_slot t p_symbol_name =
     scan_internal (internal_symbols t) p_symbol_name (length (internal_symbols t))"

fun ContainsSymbol :: "'e chain \<Rightarrow> EidosGlobalStringID \<Rightarrow> bool" where
  "ContainsSymbol [] p_symbol_name = False"
| "ContainsSymbol (t # parent_symbol_table) p_symbol_name =
     (if using_internal_symbols t then
        (case find_slot t p_symbol_name of
           Some symbol_index \<Rightarrow> True
         | None \<Rightarrow> ContainsSymbol parent_symbol_table p_symbol_name)
      else
        (case map_of (hash_symbols t) p_symbol_name of
           Some v \<Rightarrow> True
         | None \<Rightarrow> ContainsSymbol parent_symbol_table p_symbol_name))"

text \<open>\<^verbatim>\<open>EidosSymbolTable::_GetValue\<close>; the error is the termination it raises at the root.\<close>

fun GetValue :: "'e chain \<Rightarrow> EidosGlobalStringID \<Rightarrow> error + 'e EidosValue" where
  "GetValue [] p_symbol_name = Inl (UndefinedIdentifier p_symbol_name)"
| "GetValue (t # parent_symbol_table) p_symbol_name =
     (if using_internal_symbols t then
        (case find_slot t p_symbol_name of
           Some symbol_index \<Rightarrow> Inr (snd (internal_symbols t ! symbol_index))
         | None \<Rightarrow> GetValue parent_symbol_table p_symbol_name)
      else
        (case map_of (hash_symbols t) p_symbol_name of
           Some v \<Rightarrow> Inr v
         | None \<Rightarrow> GetValue parent_symbol_table p_symbol_name))"

section \<open>The string interner\<close>

text \<open>
  \<^verbatim>\<open>gStringToID\<close>, \<^verbatim>\<open>gIDToString\<close> and \<^verbatim>\<open>gNextUnusedID\<close> of
  \<^verbatim>\<open>eidos_global.cpp\<close>. The maps are \<^verbatim>\<open>std::unordered_map\<close>s that are only searched
  and assigned to; the identifiers are \<^verbatim>\<open>uint32_t\<close>, so the counter wraps.
\<close>

record interner =
  gStringToID :: "string \<rightharpoonup> EidosGlobalStringID"
  gIDToString :: "EidosGlobalStringID \<rightharpoonup> string"
  gNextUnusedID :: EidosGlobalStringID

definition gEidosStr_undefined :: string where
  "gEidosStr_undefined = ''undefined''"

datatype register_error = StringAlreadyRegistered | IdAlreadyRegistered | IdOutOfRange

text \<open>
  \<^verbatim>\<open>gEidosID_LastContextEntry\<close> is an enumerator of a header that is not among the
  sources; it is the first argument here and the counter's first value.
\<close>

definition Eidos_RegisterStringForGlobalID ::
    "EidosGlobalStringID \<Rightarrow> interner \<Rightarrow> string \<Rightarrow> EidosGlobalStringID \<Rightarrow> register_error + interner" where
  "Eidos_RegisterStringForGlobalID gEidosID_LastContextEntry g p_string p_string_id =
     (if gStringToID g p_string \<noteq> None then Inl StringAlreadyRegistered
      else if gIDToString g p_string_id \<noteq> None then Inl IdAlreadyRegistered
      else if p_string_id \<ge> gEidosID_LastContextEntry then Inl IdOutOfRange
      else Inr (g\<lparr>gStringToID := (gStringToID g)(p_string \<mapsto> p_string_id),
                  gIDToString := (gIDToString g)(p_string_id \<mapsto> p_string)\<rparr>))"

definition EidosGlobalStringIDForString :: "interner \<Rightarrow> string \<Rightarrow> EidosGlobalStringID \<times> interner" where
  "EidosGlobalStringIDForString g p_string =
     (case gStringToID g p_string of
        None \<Rightarrow>
          (let string_id = gNextUnusedID g in
           (string_id,
            g\<lparr>gNextUnusedID := gNextUnusedID g + 1,
              gStringToID := (gStringToID g)(p_string \<mapsto> string_id),
              gIDToString := (gIDToString g)(string_id \<mapsto> p_string)\<rparr>))
      | Some found \<Rightarrow> (found, g))"

definition StringForEidosGlobalStringID :: "interner \<Rightarrow> EidosGlobalStringID \<Rightarrow> string" where
  "StringForEidosGlobalStringID g p_string_id =
     (case gIDToString g p_string_id of
        None \<Rightarrow> gEidosStr_undefined
      | Some found \<Rightarrow> found)"

section \<open>Enumeration and the writers of the symbol table\<close>


text \<open>
  The three operations of \<^verbatim>\<open>std::unordered_map\<close> that the writers use:
  \<^verbatim>\<open>insert\<close>, which leaves an existing key alone; assignment through the iterator that
  \<^verbatim>\<open>find\<close> returned; and \<^verbatim>\<open>erase\<close>.
\<close>

definition hash_insert :: "'e slots \<Rightarrow> EidosGlobalStringID \<Rightarrow> 'e EidosValue \<Rightarrow> 'e slots" where
  "hash_insert h k v = (if map_of h k = None then h @ [(k, v)] else h)"

definition hash_assign :: "'e slots \<Rightarrow> EidosGlobalStringID \<Rightarrow> 'e EidosValue \<Rightarrow> 'e slots" where
  "hash_assign h k v = map (\<lambda>slot. if fst slot = k then (k, v) else slot) h"

definition hash_erase :: "'e slots \<Rightarrow> EidosGlobalStringID \<Rightarrow> 'e slots" where
  "hash_erase h k = filter (\<lambda>slot. fst slot \<noteq> k) h"

text \<open>\<^verbatim>\<open>EidosSymbolTable::_SwitchToHash\<close>: the slots are inserted in index order.\<close>

definition SwitchToHash :: "'e EidosSymbolTable \<Rightarrow> 'e EidosSymbolTable" where
  "SwitchToHash t =
     (if using_internal_symbols t then
        t\<lparr>hash_symbols :=
             foldl (\<lambda>h old_symbol_slot. hash_insert h (fst old_symbol_slot) (snd old_symbol_slot))
               (hash_symbols t) (internal_symbols t),
          using_internal_symbols := False,
          internal_symbols := []\<rparr>
      else t)"

text \<open>
  Values of macros and defaults that headers outside the sources declare: whether
  \<^verbatim>\<open>DEBUG\<close> is defined, the capacity \<^verbatim>\<open>EIDOS_SYMBOL_TABLE_BASE_SIZE\<close> of the internal
  array, and the default of the constructor's \<^verbatim>\<open>p_start_with_hash\<close>.
\<close>

record build =
  DEBUG :: bool
  EIDOS_SYMBOL_TABLE_BASE_SIZE :: nat
  start_with_hash_default :: bool

text \<open>
  A writer returns the chain it leaves behind, or the termination it raised together with
  the chain as it was at that moment.
\<close>

type_synonym 'e outcome = "(error \<times> 'e chain) + 'e chain"

text \<open>The fall-through "hash table case" that ends both setters.\<close>

definition set_in_hash ::
    "'e EidosSymbolTable \<Rightarrow> 'e chain \<Rightarrow> EidosGlobalStringID \<Rightarrow> 'e EidosValue \<Rightarrow> 'e outcome" where
  "set_in_hash t parent_symbol_table p_symbol_name p_value =
     (case map_of (hash_symbols t) p_symbol_name of
        None \<Rightarrow>
          if ContainsSymbol parent_symbol_table p_symbol_name
          then Inl (RedefinitionOfConstant p_symbol_name, t # parent_symbol_table)
          else Inr (t\<lparr>hash_symbols := hash_insert (hash_symbols t) p_symbol_name p_value\<rparr>
                    # parent_symbol_table)
      | Some existing \<Rightarrow>
          Inr (t\<lparr>hash_symbols := hash_assign (hash_symbols t) p_symbol_name p_value\<rparr>
               # parent_symbol_table))"

text \<open>
  The body that \<^verbatim>\<open>SetValueForSymbol\<close> and \<^verbatim>\<open>SetValueForSymbolNoCopy\<close> share word for
  word, after their first statement.
\<close>

definition set_symbol ::
    "build \<Rightarrow> 'e EidosSymbolTable \<Rightarrow> 'e chain \<Rightarrow> EidosGlobalStringID \<Rightarrow> 'e EidosValue \<Rightarrow> 'e outcome" where
  "set_symbol B t parent_symbol_table p_symbol_name p_value =
     (if using_internal_symbols t then
        (case find_slot t p_symbol_name of
           None \<Rightarrow>
             if ContainsSymbol parent_symbol_table p_symbol_name
             then Inl (RedefinitionOfConstant p_symbol_name, t # parent_symbol_table)
             else if length (internal_symbols t) < EIDOS_SYMBOL_TABLE_BASE_SIZE B
             then Inr (t\<lparr>internal_symbols := internal_symbols t @ [(p_symbol_name, p_value)]\<rparr>
                       # parent_symbol_table)
             else set_in_hash (SwitchToHash t) parent_symbol_table p_symbol_name p_value
         | Some symbol_slot \<Rightarrow>
             Inr (t\<lparr>internal_symbols :=
                      (internal_symbols t)
                        [symbol_slot := (fst (internal_symbols t ! symbol_slot), p_value)]\<rparr>
                  # parent_symbol_table))
      else set_in_hash t parent_symbol_table p_symbol_name p_value)"

fun SetValueForSymbol ::
    "build \<Rightarrow> 'e chain \<Rightarrow> EidosGlobalStringID \<Rightarrow> 'e EidosValue \<Rightarrow> 'e outcome" where
  "SetValueForSymbol B (t # parent_symbol_table) p_symbol_name p_value =
     set_symbol B t parent_symbol_table p_symbol_name (copy_unless_unique p_value)"


text \<open>
  \<^verbatim>\<open>EidosSymbolTable::_InitializeConstantSymbolEntry\<close>, with its two checks that exist
  under \<^verbatim>\<open>DEBUG\<close> only. It does not look for the name first.
\<close>

definition InitializeConstantSymbolEntry ::
    "build \<Rightarrow> 'e EidosSymbolTable \<Rightarrow> EidosGlobalStringID \<Rightarrow> 'e EidosValue
      \<Rightarrow> error + 'e EidosSymbolTable" where
  "InitializeConstantSymbolEntry B t p_symbol_name p_value =
     (if DEBUG B \<and> invisible p_value then Inl InitInvisible
      else if DEBUG B \<and> table_type t = kVariablesTable then Inl InitOnVariables
      else if using_internal_symbols t then
        (if length (internal_symbols t) < EIDOS_SYMBOL_TABLE_BASE_SIZE B
         then Inr (t\<lparr>internal_symbols := internal_symbols t @ [(p_symbol_name, p_value)]\<rparr>)
         else Inr ((SwitchToHash t)
                    \<lparr>hash_symbols :=
                       hash_insert (hash_symbols (SwitchToHash t)) p_symbol_name p_value\<rparr>))
      else Inr (t\<lparr>hash_symbols := hash_insert (hash_symbols t) p_symbol_name p_value\<rparr>))"

text \<open>
  The constructor with a parent table: an empty table in front of the parent chain. (The
  constructor without a parent fills the table with the seven intrinsic constants; no
  writer below calls it.) Its checks exist under \<^verbatim>\<open>DEBUG\<close> only.
\<close>

datatype construct_error = IntrinsicWithParent | ParentIsVariables

definition EidosSymbolTable_with_parent ::
    "build \<Rightarrow> EidosSymbolTableType \<Rightarrow> 'e chain \<Rightarrow> bool \<Rightarrow> construct_error + 'e chain" where
  "EidosSymbolTable_with_parent B p_table_type p_parent_table p_start_with_hash =
     (if DEBUG B \<and> p_table_type = kEidosIntrinsicConstantsTable then Inl IntrinsicWithParent
      else if DEBUG B \<and> table_type (hd p_parent_table) = kVariablesTable then Inl ParentIsVariables
      else Inr (\<lparr>table_type = p_table_type, using_internal_symbols = \<not> p_start_with_hash,
                 internal_symbols = [], hash_symbols = []\<rparr> # p_parent_table))"





text \<open>
  \<^verbatim>\<open>EidosSymbolTable::_RemoveSymbol\<close>. A slot is removed from the internal array by
  moving the last slot into its place.
\<close>

definition remove_slot :: "'e slots \<Rightarrow> nat \<Rightarrow> 'e slots" where
  "remove_slot sl symbol_slot =
     (let backfill = length sl - 1
      in butlast (if symbol_slot \<noteq> backfill then sl[symbol_slot := sl ! backfill] else sl))"

definition removal_refused :: "'e EidosSymbolTable \<Rightarrow> EidosGlobalStringID \<Rightarrow> bool \<Rightarrow> error option" where
  "removal_refused t p_symbol_name p_remove_constant =
     (if table_type t \<noteq> kVariablesTable then
        (if table_type t = kEidosIntrinsicConstantsTable
         then Some (IntrinsicNotRemovable p_symbol_name)
         else if \<not> p_remove_constant then Some (ConstantNotRemovable p_symbol_name)
         else None)
      else None)"

fun RemoveSymbol :: "'e chain \<Rightarrow> EidosGlobalStringID \<Rightarrow> bool \<Rightarrow> 'e outcome" where
  "RemoveSymbol [] p_symbol_name p_remove_constant = Inr []"
| "RemoveSymbol (t # parent_symbol_table) p_symbol_name p_remove_constant =
     (if using_internal_symbols t then
        (case find_slot t p_symbol_name of
           Some symbol_slot \<Rightarrow>
             (case removal_refused t p_symbol_name p_remove_constant of
                Some e \<Rightarrow> Inl (e, t # parent_symbol_table)
              | None \<Rightarrow>
                  Inr (t\<lparr>internal_symbols := remove_slot (internal_symbols t) symbol_slot\<rparr>
                       # parent_symbol_table))
         | None \<Rightarrow>
             (case RemoveSymbol parent_symbol_table p_symbol_name p_remove_constant of
                Inl (e, parent') \<Rightarrow> Inl (e, t # parent')
              | Inr parent' \<Rightarrow> Inr (t # parent')))
      else
        (case map_of (hash_symbols t) p_symbol_name of
           Some found \<Rightarrow>
             (case removal_refused t p_symbol_name p_remove_constant of
                Some e \<Rightarrow> Inl (e, t # parent_symbol_table)
              | None \<Rightarrow>
                  Inr (t\<lparr>hash_symbols := hash_erase (hash_symbols t) p_symbol_name\<rparr>
                       # parent_symbol_table))
         | None \<Rightarrow>
             (case RemoveSymbol parent_symbol_table p_symbol_name p_remove_constant of
                Inl (e, parent') \<Rightarrow> Inl (e, t # parent')
              | Inr parent' \<Rightarrow> Inr (t # parent'))))"

section \<open>What a table binds, stated apart from the loops\<close>

text \<open>
  The binding that a table's own storage gives to a name: in array storage the slot with
  that name that is nearest to the back of the array, in hash storage the entry of the map.
\<close>

definition local_binding :: "'e EidosSymbolTable \<Rightarrow> EidosGlobalStringID \<Rightarrow> 'e EidosValue option" where
  "local_binding t n =
     (if using_internal_symbols t then map_of (rev (internal_symbols t)) n
      else map_of (hash_symbols t) n)"

text \<open>The nearest table of a chain that holds a name, if any table does.\<close>

definition nearest_holder :: "'e chain \<Rightarrow> EidosGlobalStringID \<Rightarrow> 'e EidosSymbolTable option" where
  "nearest_holder ch n = List.find (\<lambda>t. local_binding t n \<noteq> None) ch"

text \<open>
  The invariant of a table's storage: no name occurs twice, and only the storage in use
  holds entries. The empty table has it and the writers that look for the name first keep
  it (\<open>set_symbol_Inr\<close> and the lemmas after it).
\<close>

definition wf_table :: "'e EidosSymbolTable \<Rightarrow> bool" where
  "wf_table t =
     (distinct (map fst (internal_symbols t)) \<and> distinct (map fst (hash_symbols t)) \<and>
      (if using_internal_symbols t then hash_symbols t = [] else internal_symbols t = []))"


text \<open>
  What it means that a removal took the binding of a name out of the nearest table that
  holds it: the chain splits at that table, no table before it binds the name, the result
  is the same chain with that table replaced, and the replacement (the storage invariant
  given) no longer binds the name and binds every other name as before.
\<close>

definition removed_from_nearest :: "'e chain \<Rightarrow> EidosGlobalStringID \<Rightarrow> 'e outcome \<Rightarrow> bool" where
  "removed_from_nearest ch n r =
     (\<exists>pre t t' post.
        ch = pre @ t # post \<and> (\<forall>u \<in> set pre. local_binding u n = None) \<and>
        local_binding t n \<noteq> None \<and>
        r = Inr (pre @ t' # post) \<and>
        table_type t' = table_type t \<and>
        using_internal_symbols t' = using_internal_symbols t \<and>
        (wf_table t \<longrightarrow>
           wf_table t' \<and> local_binding t' n = None \<and>
           (\<forall>m. m \<noteq> n \<longrightarrow> local_binding t' m = local_binding t m)))"



text \<open>
  Only the storage in use holds entries: the hash table is empty until the table switches
  to it, and the array is empty afterwards.
\<close>

definition one_storage :: "'e EidosSymbolTable \<Rightarrow> bool" where
  "one_storage t =
     (if using_internal_symbols t then hash_symbols t = [] else internal_symbols t = [])"
section \<open>Runs of the interner\<close>

text \<open>
  The interner starts with empty maps and the counter at \<^verbatim>\<open>gEidosID_LastContextEntry\<close>.
  A run of the program registers and interns strings in some order; a registration that
  raises its termination changes nothing. The run keeps a log of the identifiers it
  handed out: the one each call of \<^verbatim>\<open>EidosGlobalStringIDForString\<close> returned and the
  one each successful registration recorded, with the string.
\<close>

definition interner_start :: "EidosGlobalStringID \<Rightarrow> interner" where
  "interner_start gEidosID_LastContextEntry =
     \<lparr>gStringToID = Map.empty, gIDToString = Map.empty,
      gNextUnusedID = gEidosID_LastContextEntry\<rparr>"

datatype interner_op = Intern string | Register string EidosGlobalStringID

fun run_interner ::
    "EidosGlobalStringID \<Rightarrow> interner \<Rightarrow> interner_op list
      \<Rightarrow> interner \<times> (EidosGlobalStringID \<times> string) list" where
  "run_interner L g [] = (g, [])"
| "run_interner L g (Intern s # ops) =
     (case EidosGlobalStringIDForString g s of
        (string_id, g') \<Rightarrow>
          (case run_interner L g' ops of (g'', issued) \<Rightarrow> (g'', (string_id, s) # issued)))"
| "run_interner L g (Register s string_id # ops) =
     (case Eidos_RegisterStringForGlobalID L g s string_id of
        Inl e \<Rightarrow> run_interner L g ops
      | Inr g' \<Rightarrow>
          (case run_interner L g' ops of (g'', issued) \<Rightarrow> (g'', (string_id, s) # issued)))"

text \<open>
  The invariant of the interner: the two maps agree, and every identifier in use is a
  preregistered one (below \<^verbatim>\<open>gEidosID_LastContextEntry\<close>) or below the counter.
\<close>

definition interner_ok :: "EidosGlobalStringID \<Rightarrow> interner \<Rightarrow> bool" where
  "interner_ok L g =
     ((\<forall>s i. gStringToID g s = Some i \<longrightarrow> gIDToString g i = Some s) \<and>
      (\<forall>i s. gIDToString g i = Some s \<longrightarrow> i < L \<or> i < gNextUnusedID g) \<and>
      L \<le> gNextUnusedID g)"

section \<open>The pool of mutation runs\<close>

text \<open>
  \<^verbatim>\<open>mutation_run.h\<close>. A run has a count, a capacity, a buffer of mutation indices, an
  operation id and an intrusive reference count. \<^verbatim>\<open>MutationRun\<close> objects are never
  destructed, so the heap is the list of all runs ever constructed and a pointer is an
  index into it; \<^verbatim>\<open>s_freed_mutation_runs_\<close> is a vector of such pointers.
\<close>

record MutationRun =
  intrusive_ref_count :: "32 word"
  mutation_count :: int
  mutation_capacity :: int
  mutations :: "int list"
  operation_id :: int

record run_pool =
  run_heap :: "MutationRun list"
  s_freed_mutation_runs :: "nat list"

definition SLIM_MUTRUN_BUFFER_SIZE :: int where
  "SLIM_MUTRUN_BUFFER_SIZE = 4"

text \<open>
  A run as \<^verbatim>\<open>new MutationRun()\<close> leaves it: the fields have the default member
  initializers of the class ("constructed empty" in its declaration); the constructor's
  body is in \<^verbatim>\<open>mutation_run.cpp\<close>, and the reference count it starts with is taken to
  be zero.
\<close>

definition MutationRun_constructed :: MutationRun where
  "MutationRun_constructed =
     \<lparr>intrusive_ref_count = 0, mutation_count = 0, mutation_capacity = SLIM_MUTRUN_BUFFER_SIZE,
      mutations = [], operation_id = 0\<rparr>"

definition NewMutationRun :: "run_pool \<Rightarrow> nat \<times> run_pool" where
  "NewMutationRun st =
     (if length (s_freed_mutation_runs st) \<noteq> 0 then
        (let back = last (s_freed_mutation_runs st)
         in (back, st\<lparr>s_freed_mutation_runs := butlast (s_freed_mutation_runs st)\<rparr>))
      else
        (length (run_heap st), st\<lparr>run_heap := run_heap st @ [MutationRun_constructed]\<rparr>))"

definition FreeMutationRun :: "run_pool \<Rightarrow> nat \<Rightarrow> run_pool" where
  "FreeMutationRun st p_run =
     st\<lparr>run_heap := (run_heap st)[p_run := (run_heap st ! p_run)\<lparr>mutation_count := 0\<rparr>],
        s_freed_mutation_runs := s_freed_mutation_runs st @ [p_run]\<rparr>"

definition size_of_run :: "run_pool \<Rightarrow> nat \<Rightarrow> int" where
  "size_of_run st p_run = mutation_count (run_heap st ! p_run)"

text \<open>
  \<^verbatim>\<open>Eidos_intrusive_ptr_release\<close>: the last reference returns the run to the pool.
\<close>

definition Eidos_intrusive_ptr_release :: "run_pool \<Rightarrow> nat \<Rightarrow> run_pool" where
  "Eidos_intrusive_ptr_release st p_value =
     (let released =
        st\<lparr>run_heap := (run_heap st)
              [p_value := (run_heap st ! p_value)
                 \<lparr>intrusive_ref_count := intrusive_ref_count (run_heap st ! p_value) - 1\<rparr>]\<rparr>
      in if intrusive_ref_count (run_heap released ! p_value) = 0
         then FreeMutationRun released p_value else released)"

text \<open>
  What the rest of the program does with the pool. It takes runs from it, frees runs
  (directly or by releasing a reference), and writes to runs through their other members
  (\<^verbatim>\<open>emplace_back\<close>, \<^verbatim>\<open>set_size\<close>, \<^verbatim>\<open>copy_from_run\<close> and so on), here any new
  content at all. The discipline of the funnels is that a run is freed or written only
  while it exists and is not on the free list; a step that breaks it has no successor.
\<close>

datatype pool_op = Take | Free nat | Release nat | Overwrite nat MutationRun

definition in_use :: "run_pool \<Rightarrow> nat \<Rightarrow> bool" where
  "in_use st p = (p < length (run_heap st) \<and> p \<notin> set (s_freed_mutation_runs st))"

fun pool_step :: "run_pool \<Rightarrow> pool_op \<Rightarrow> run_pool option" where
  "pool_step st Take = Some (snd (NewMutationRun st))"
| "pool_step st (Free p) = (if in_use st p then Some (FreeMutationRun st p) else None)"
| "pool_step st (Release p) =
     (if in_use st p then Some (Eidos_intrusive_ptr_release st p) else None)"
| "pool_step st (Overwrite p r) =
     (if in_use st p then Some (st\<lparr>run_heap := (run_heap st)[p := r]\<rparr>) else None)"

fun pool_run :: "run_pool \<Rightarrow> pool_op list \<Rightarrow> run_pool option" where
  "pool_run st [] = Some st"
| "pool_run st (x # xs) =
     (case pool_step st x of None \<Rightarrow> None | Some st' \<Rightarrow> pool_run st' xs)"

definition pool_start :: run_pool where
  "pool_start = \<lparr>run_heap = [], s_freed_mutation_runs = []\<rparr>"

definition freed_runs_empty :: "run_pool \<Rightarrow> bool" where
  "freed_runs_empty st =
     list_all (\<lambda>p. p < length (run_heap st) \<and> mutation_count (run_heap st ! p) = 0)
       (s_freed_mutation_runs st)"

text \<open>The invariant of the pool: the free list holds existing, empty runs, each once.\<close>

definition pool_ok :: "run_pool \<Rightarrow> bool" where
  "pool_ok st = (freed_runs_empty st \<and> distinct (s_freed_mutation_runs st))"

section \<open>Termination\<close>

text \<open>
  The globals of \<^verbatim>\<open>eidos_global.cpp\<close> that the terminator reads and writes, and the two
  streams a diagnostic can go to: the string stream \<^verbatim>\<open>gEidosTermination\<close> and the
  standard error of the process (\<^verbatim>\<open>std::cerr\<close> and \<^verbatim>\<open>stderr\<close>).
\<close>

record eidos_globals =
  gEidosTerminateThrows :: bool
  gEidosTermination :: string
  standard_error :: string
  gEidosCharacterStartOfError :: int
  gEidosCharacterEndOfError :: int
  gEidosCurrentScript :: "string option"
  gEidosExecutingRuntimeScript :: bool
  gEidosErrorLine :: int
  gEidosErrorLineCharacter :: int

datatype ostream = EidosTerminationStream | StdCerr

definition put :: "ostream \<Rightarrow> string \<Rightarrow> eidos_globals \<Rightarrow> eidos_globals" where
  "put p_out s g =
     (case p_out of
        EidosTerminationStream \<Rightarrow> g\<lparr>gEidosTermination := gEidosTermination g @ s\<rparr>
      | StdCerr \<Rightarrow> g\<lparr>standard_error := standard_error g @ s\<rparr>)"

text \<open>
  Modelled from the spec: the macro \<^verbatim>\<open>EIDOS_TERMINATION\<close> is defined in
  \<^verbatim>\<open>eidos_global.h\<close>, which is not among the sources. The specification has one
  "error-collection stream" that "receives all diagnostics"; the comment at
  \<^verbatim>\<open>gEidosTermination\<close> says it is the "string stream used for output when
  gEidosTerminateThrows == 1", and \<^verbatim>\<open>SLIM_ERRSTREAM\<close> of \<^verbatim>\<open>slim_global.h\<close> selects
  between its string stream and \<^verbatim>\<open>std::cerr\<close> in the same way.
\<close>

definition EIDOS_TERMINATION :: "eidos_globals \<Rightarrow> ostream" where
  "EIDOS_TERMINATION g = (if gEidosTerminateThrows g then EidosTerminationStream else StdCerr)"

definition endl :: string where
  "endl = [CHR 0x0A]"

definition is_line_break :: "char \<Rightarrow> bool" where
  "is_line_break c = (c = CHR 0x0A \<or> c = CHR 0x0D)"

text \<open>Printing an \<^verbatim>\<open>int\<close> to a stream, in decimal.\<close>

fun decimal :: "nat \<Rightarrow> string" where
  "decimal n =
     (if n < 10 then [char_of (48 + n)] else decimal (n div 10) @ [char_of (48 + n mod 10)])"

declare decimal.simps [simp del]

definition put_int :: "int \<Rightarrow> string" where
  "put_int i = (if i < 0 then CHR ''-'' # decimal (nat (- i)) else decimal (nat i))"

text \<open>
  The loops of \<^verbatim>\<open>eidos_log_script_error\<close>. \<open>line_start s k\<close> runs \<^verbatim>\<open>lineStart\<close> down
  from \<open>k\<close>; \<open>line_end s e\<close> runs \<^verbatim>\<open>lineEnd\<close> up from \<open>e\<close>; \<open>emit_line\<close> and
  \<open>emit_indent\<close> run over the characters from \<^verbatim>\<open>lineStart\<close> on.
\<close>

fun line_start :: "string \<Rightarrow> nat \<Rightarrow> nat" where
  "line_start s 0 = 0"
| "line_start s (Suc k) = (if is_line_break (s ! k) then Suc k else line_start s k)"

function line_end :: "string \<Rightarrow> nat \<Rightarrow> nat" where
  "line_end s e =
     (if e + 1 < length s then (if is_line_break (s ! (e + 1)) then e else line_end s (e + 1))
      else e)"
  by pat_completeness auto
termination
  by (relation "measure (\<lambda>(s, e). length s - e)") auto

declare line_end.simps [simp del]

fun emit_line :: "string \<Rightarrow> string" where
  "emit_line [] = []"
| "emit_line (script_char # rest) =
     (if script_char = CHR 0x09 then ''   '' @ emit_line rest
      else if is_line_break script_char then []
      else script_char # emit_line rest)"

fun emit_indent :: "string \<Rightarrow> string" where
  "emit_indent [] = []"
| "emit_indent (script_char # rest) =
     (if script_char = CHR 0x09 then ''   '' @ emit_indent rest
      else if is_line_break script_char then []
      else CHR '' '' # emit_indent rest)"

text \<open>
  \<^verbatim>\<open>eidos_log_script_error\<close>. The result is \<open>None\<close> where the source reads outside the
  string: with an empty script and the position 0 its two clamps give
  \<^verbatim>\<open>lineStart = lineEnd = -1\<close> and the first emitting loop reads
  \<^verbatim>\<open>script_string[-1]\<close>.
\<close>

definition eidos_log_script_error ::
    "ostream \<Rightarrow> int \<Rightarrow> int \<Rightarrow> string option \<Rightarrow> bool \<Rightarrow> eidos_globals \<Rightarrow> eidos_globals option" where
  "eidos_log_script_error p_out p_start p_end p_script p_inside_lambda g =
     (case p_script of
        None \<Rightarrow> Some g
      | Some script_string \<Rightarrow>
          if p_start \<ge> 0 \<and> p_end \<ge> p_start \<and>
             int (length script_string) \<ge> p_start \<and> int (length script_string) \<ge> p_end
          then
            if script_string = [] then None
            else
              (let len = length script_string;
                   lineStart = line_start script_string
                                 (if nat p_start < len then nat p_start else len - 1);
                   lineEnd = line_end script_string
                               (if nat p_end < len then nat p_end else len - 1);
                   lineNumber = 1 + int (length (filter (\<lambda>c. c = CHR 0x0A)
                                                   (take lineStart script_string)));
                   g1 = g\<lparr>gEidosErrorLine := lineNumber,
                          gEidosErrorLineCharacter := p_start - int lineStart\<rparr>
               in Some (put p_out
                    (endl @ ''Error on script line '' @ put_int lineNumber @ '', character '' @
                     put_int (p_start - int lineStart) @
                     (if p_inside_lambda then '' (inside runtime script block)'' else []) @
                     '':'' @ endl @ endl @
                     emit_line (take (Suc lineEnd - lineStart) (drop lineStart script_string)) @
                     endl @
                     emit_indent (take (nat p_start - lineStart) (drop lineStart script_string)) @
                     replicate (nat (p_end - p_start + 1)) (CHR ''^'') @
                     endl)
                    g1))
          else Some g)"

text \<open>How control leaves the terminator: a thrown \<^verbatim>\<open>std::runtime_error\<close>, or \<^verbatim>\<open>exit\<close>.\<close>

datatype leaving = runtime_error string | exit_with int

text \<open>
  \<^verbatim>\<open>EXIT_FAILURE\<close> is the macro of the C library; it is 1 on the platforms this program
  is built for.
\<close>

definition EXIT_FAILURE :: int where
  "EXIT_FAILURE = 1"

text \<open>
  \<^verbatim>\<open>operator<<(std::ostream&, const eidos_terminate&)\<close>. The first argument is the text
  that \<^verbatim>\<open>eidos_print_stacktrace\<close> prints for the call stack at hand. The result is how
  control leaves and the globals then; \<open>None\<close> where the excerpt reads outside the script.
\<close>

definition terminate ::
    "string \<Rightarrow> ostream \<Rightarrow> bool \<Rightarrow> eidos_globals \<Rightarrow> (leaving \<times> eidos_globals) option" where
  "terminate backtrace p_out print_backtrace g =
     (let g1 = put p_out endl g;
          g2 = (if print_backtrace then g1\<lparr>standard_error := standard_error g1 @ backtrace\<rparr>
                else g1)
      in if gEidosTerminateThrows g2
         then Some (runtime_error ''A runtime error occurred in Eidos'', g2)
         else
           (case eidos_log_script_error p_out (gEidosCharacterStartOfError g2)
                   (gEidosCharacterEndOfError g2) (gEidosCurrentScript g2)
                   (gEidosExecutingRuntimeScript g2) g2 of
              None \<Rightarrow> None
            | Some g3 \<Rightarrow> Some (exit_with EXIT_FAILURE, g3)))"

text \<open>
  \<^verbatim>\<open>std::string::find_last_not_of\<close>: the last index whose character is not in the set,
  searched from the back.
\<close>

fun last_not_of :: "string \<Rightarrow> char list \<Rightarrow> nat \<Rightarrow> nat option" where
  "last_not_of s cs 0 = None"
| "last_not_of s cs (Suc k) = (if s ! k \<notin> set cs then Some k else last_not_of s cs k)"

definition find_last_not_of :: "string \<Rightarrow> char list \<Rightarrow> nat option" where
  "find_last_not_of s cs = last_not_of s cs (length s)"

definition gEidosStr_empty_string :: string where
  "gEidosStr_empty_string = ''''"

definition EidosGetTrimmedRaiseMessage :: "eidos_globals \<Rightarrow> string \<times> eidos_globals" where
  "EidosGetTrimmedRaiseMessage g =
     (if gEidosTerminateThrows g then
        (let terminationMessage = gEidosTermination g;
             g' = g\<lparr>gEidosTermination := gEidosStr_empty_string\<rparr>
         in (case find_last_not_of terminationMessage [CHR 0x0A, CHR 0x0D] of
               Some endpos \<Rightarrow> (take (endpos + 1) terminationMessage, g')
             | None \<Rightarrow> (terminationMessage, g')))
      else (gEidosStr_empty_string, g))"

definition EidosGetUntrimmedRaiseMessage :: "eidos_globals \<Rightarrow> string \<times> eidos_globals" where
  "EidosGetUntrimmedRaiseMessage g =
     (if gEidosTerminateThrows g
      then (gEidosTermination g, g\<lparr>gEidosTermination := gEidosStr_empty_string\<rparr>)
      else (gEidosStr_empty_string, g))"

text \<open>A message without the line breaks at its end.\<close>

definition without_trailing_breaks :: "string \<Rightarrow> string" where
  "without_trailing_breaks s = rev (dropWhile is_line_break (rev s))"

text \<open>
  A script and a position in it are on record: the condition under which
  \<^verbatim>\<open>eidos_log_script_error\<close> prints anything.
\<close>

definition position_recorded :: "eidos_globals \<Rightarrow> bool" where
  "position_recorded g =
     (case gEidosCurrentScript g of
        None \<Rightarrow> False
      | Some script_string \<Rightarrow>
          0 \<le> gEidosCharacterStartOfError g \<and>
          gEidosCharacterStartOfError g \<le> gEidosCharacterEndOfError g \<and>
          gEidosCharacterEndOfError g \<le> int (length script_string))"

text \<open>
  The globals after the terminator has written its line end to the termination stream and,
  if asked, the backtrace to standard error.
\<close>

definition marker_emitted :: "string \<Rightarrow> bool \<Rightarrow> eidos_globals \<Rightarrow> eidos_globals" where
  "marker_emitted backtrace print_backtrace g =
     g\<lparr>gEidosTermination := gEidosTermination g @ endl,
       standard_error := standard_error g @ (if print_backtrace then backtrace else [])\<rparr>"

text \<open>
  The excerpt, stated apart from the loops. \<open>up_to_break\<close> is a text up to its first line
  break, which is a line feed or a carriage return; \<open>expand_tabs\<close> shows a tab as three blanks and \<open>blank_out\<close> shows a tab as three
  blanks and every other character as one. The line of a position starts after the last
  line break before the position (the position of the end of the script counts as that of
  its last character), and its number is one more than the number of newlines before that
  start.
\<close>

definition up_to_break :: "string \<Rightarrow> string" where
  "up_to_break s = takeWhile (\<lambda>c. c \<noteq> CHR 0x0A \<and> c \<noteq> CHR 0x0D) s"

definition expand_tabs :: "string \<Rightarrow> string" where
  "expand_tabs s = concat (map (\<lambda>c. if c = CHR 0x09 then ''   '' else [c]) s)"

definition blank_out :: "string \<Rightarrow> string" where
  "blank_out s = concat (map (\<lambda>c. if c = CHR 0x09 then ''   '' else '' '') s)"

definition error_line_start :: "string \<Rightarrow> int \<Rightarrow> nat" where
  "error_line_start s p =
     (let k = min (nat p) (length s - 1) in k - length (up_to_break (rev (take k s))))"

definition error_line_number :: "string \<Rightarrow> int \<Rightarrow> int" where
  "error_line_number s p =
     1 + int (length (filter (\<lambda>c. c = CHR 0x0A) (take (error_line_start s p) s)))"

text \<open>
  The excerpt for the offsets \<open>p_start\<close> and \<open>p_end\<close> in the script \<open>s\<close>: a line end, the
  header with the line number and the offset within the line, an empty line, the line with
  its tabs expanded, and under it one caret for each offset from \<open>p_start\<close> to \<open>p_end\<close>,
  moved right by the blanked-out text of the line before \<open>p_start\<close>.
\<close>

definition script_excerpt :: "string \<Rightarrow> int \<Rightarrow> int \<Rightarrow> bool \<Rightarrow> string" where
  "script_excerpt s p_start p_end inside_lambda =
     endl @ ''Error on script line '' @ put_int (error_line_number s p_start) @
     '', character '' @ put_int (p_start - int (error_line_start s p_start)) @
     (if inside_lambda then '' (inside runtime script block)'' else []) @ '':'' @ endl @ endl @
     expand_tabs (up_to_break (drop (error_line_start s p_start) s)) @ endl @
     blank_out (up_to_break (take (nat p_start - error_line_start s p_start)
                               (drop (error_line_start s p_start) s))) @
     replicate (nat (p_end - p_start + 1)) (CHR ''^'') @ endl"
section \<open>Constants from the command line\<close>

text \<open>
  \<^verbatim>\<open>Eidos_GoodSymbolForDefine\<close>. Its loop over the characters after the first stops at
  the first one outside \<^verbatim>\<open>'0'..'9'\<close>; \<open>only_digits\<close> says whether it reached the end.
  (The comparison reads the character as a byte; a byte above 127 is outside the range
  whether \<^verbatim>\<open>char\<close> is signed or not.)
\<close>

fun only_digits :: "string \<Rightarrow> bool" where
  "only_digits [] = True"
| "only_digits (idx_ch # rest) =
     (if (of_char idx_ch :: nat) < 48 \<or> (of_char idx_ch :: nat) > 57 then False
      else only_digits rest)"

definition Eidos_GoodSymbolForDefine :: "string \<Rightarrow> bool" where
  "Eidos_GoodSymbolForDefine p_symbol_name =
     (let good_symbol = True;
          good_symbol =
            (if p_symbol_name \<in> set [''T'', ''F'', ''NULL'', ''PI'', ''E'', ''INF'', ''NAN'']
             then False else good_symbol);
          good_symbol =
            (if p_symbol_name \<in> set [''if'', ''else'', ''do'', ''while'', ''for'', ''in'',
                                      ''next'', ''break'', ''return'']
             then False else good_symbol);
          good_symbol = (if p_symbol_name = ''sim'' then False else good_symbol);
          len = length p_symbol_name
      in if len \<ge> 2 then
           (let first_ch = hd p_symbol_name
            in if first_ch \<in> set ''pgms'' then
                 (if only_digits (tl p_symbol_name) then False else good_symbol)
               else good_symbol)
         else good_symbol)"

text \<open>
  Tokens and syntax trees, as far as \<^verbatim>\<open>Eidos_DefineConstantsFromCommandLine\<close> looks at
  them. A child pointer can be null.
\<close>

datatype EidosTokenType = kTokenInterpreterBlock | kTokenAssign | kTokenIdentifier | kTokenOther

record EidosToken =
  token_type :: EidosTokenType
  token_string :: string
  token_end :: int

datatype EidosASTNode = ASTNode (token: EidosToken) (children: "EidosASTNode option list")

text \<open>The program state the function works on.\<close>

text \<open>
  \<^verbatim>\<open>gEidosConstantsSymbolTable\<close> is the table that the global pointer points to.
  \<^verbatim>\<open>Eidos_WarmUp\<close> allocates it, as the intrinsic constants table without a parent, and
  nothing else among the sources assigns the pointer; the state is one after the warm-up.
\<close>

record 'e eidos_state =
  globals :: eidos_globals
  gEidosConstantsSymbolTable :: "'e EidosSymbolTable"
  strings :: interner

text \<open>
  The tokenizer, the parser and the interpreter are not among the sources; they are the two
  functions of this record, and each may change the program state in any way (a failure
  they raise is written to the termination stream and may record an error position; an
  identifier may be interned). \<open>parse_script s st\<close> is \<^verbatim>\<open>EidosScript script(s)\<close> with
  \<^verbatim>\<open>SetFinalSemicolonOptional(true)\<close>, \<^verbatim>\<open>Tokenize()\<close> and
  \<^verbatim>\<open>ParseInterpreterBlockToAST()\<close>: \<open>None\<close> when one of them throws, else the tree
  \<^verbatim>\<open>script.AST()\<close>, which can be null. \<open>evaluate_script s AST ch st\<close> is
  \<^verbatim>\<open>EvaluateInterpreterBlock(false)\<close> of an interpreter made for that script and the
  symbol table chain \<open>ch\<close>: \<open>None\<close> when it throws, else the value pointer returned, which
  can be null.
\<close>

record 'e front_end =
  parse_script :: "string \<Rightarrow> 'e eidos_state \<Rightarrow> EidosASTNode option option \<times> 'e eidos_state"
  evaluate_script ::
    "string \<Rightarrow> EidosASTNode option \<Rightarrow> 'e chain \<Rightarrow> 'e eidos_state
      \<Rightarrow> 'e EidosValue option option \<times> 'e eidos_state"

text \<open>
  How the function ends: it returns; or a termination leaves it, thrown or by
  \<^verbatim>\<open>exit\<close>; or \<^verbatim>\<open>std::string::substr\<close> throws \<^verbatim>\<open>std::out_of_range\<close>, which nothing
  here catches; or the terminator reads outside the script (see \<^const>\<open>terminate\<close>).
\<close>

datatype 'e cmdline_outcome =
  Returned "'e eidos_state"
  | Terminated leaving "'e eidos_state"
  | OutOfRange "'e eidos_state"
  | ReadOutside

definition malformed_message :: "string \<Rightarrow> string" where
  "malformed_message constant =
     ''ERROR (Eidos_DefineConstantsFromCommandLine): malformed command-line constant definition: ''
     @ constant"

definition illegal_name_message :: "string \<Rightarrow> string" where
  "illegal_name_message symbol_name =
     ''ERROR (Eidos_DefineConstantsFromCommandLine): illegal defined constant name ''
     @ [CHR 0x22] @ symbol_name @ [CHR 0x22] @ ''.''"

definition initialize_message :: "error \<Rightarrow> string" where
  "initialize_message e =
     (if e = InitInvisible
      then ''ERROR (EidosSymbolTable::_InitializeConstantSymbolEntry): (internal error) this method should be called only for non-invisible objects.''
      else ''ERROR (EidosSymbolTable::_InitializeConstantSymbolEntry): (internal error) this method should be called only on constant symbol tables.'')"

definition construct_message :: "construct_error \<Rightarrow> string" where
  "construct_message e =
     (case e of
        IntrinsicWithParent \<Rightarrow>
          ''ERROR (EidosSymbolTable::EidosSymbolTable): (internal error) the Eidos intrinsic constants table cannot have a parent.''
      | ParentIsVariables \<Rightarrow>
          ''ERROR (EidosSymbolTable::EidosSymbolTable): (internal error) parent symbol tables must be constant in the current design.'')"

text \<open>
  \<^verbatim>\<open>EIDOS_TERMINATION << message << eidos_terminate(nullptr)\<close>. The null token pushes no
  error position. \<open>print_backtrace\<close> is the default of the terminator's flag, which its
  declaration (not among the sources) sets.
\<close>

definition raise_termination ::
    "string \<Rightarrow> bool \<Rightarrow> string \<Rightarrow> 'e eidos_state \<Rightarrow> 'e cmdline_outcome" where
  "raise_termination backtrace print_backtrace message st =
     (let g = globals st;
          g1 = put (EIDOS_TERMINATION g) message g
      in case terminate backtrace (EIDOS_TERMINATION g1) print_backtrace g1 of
           None \<Rightarrow> ReadOutside
         | Some (how, g2) \<Rightarrow> Terminated how (st\<lparr>globals := g2\<rparr>))"

text \<open>
  \<^verbatim>\<open>Eidos_ValueForCommandLineExpression\<close>: the expression is parsed and then evaluated
  over a new, empty variables table whose parent is the global constants table. What is
  thrown on the way (by the front end, or by the check that the constructor of the table
  makes under \<^verbatim>\<open>DEBUG\<close>) is caught and gives a null pointer; a termination that exits
  instead ends the call.
\<close>

definition Eidos_ValueForCommandLineExpression ::
    "'e front_end \<Rightarrow> build \<Rightarrow> string \<Rightarrow> bool \<Rightarrow> 'e eidos_state \<Rightarrow> string
      \<Rightarrow> 'e cmdline_outcome + ('e EidosValue option \<times> 'e eidos_state)" where
  "Eidos_ValueForCommandLineExpression F B backtrace print_backtrace st p_value_expression =
     (case parse_script F p_value_expression st of
        (None, st1) \<Rightarrow> Inr (None, st1)
      | (Some AST, st1) \<Rightarrow>
          (case EidosSymbolTable_with_parent B kVariablesTable [gEidosConstantsSymbolTable st1]
                  (start_with_hash_default B) of
             Inl e \<Rightarrow>
               (case raise_termination backtrace print_backtrace (construct_message e) st1 of
                  Terminated (runtime_error what) st2 \<Rightarrow> Inr (None, st2)
                | other \<Rightarrow> Inl other)
           | Inr symbol_table \<Rightarrow>
               (case evaluate_script F p_value_expression AST symbol_table st1 of
                  (None, st2) \<Rightarrow> Inr (None, st2)
                | (Some v, st2) \<Rightarrow> Inr (v, st2))))"

text \<open>
  The nested conditions on the tree of a constant: an interpreter block with one child,
  which is an assignment with two children, of which the left is an identifier without
  children. The result is the identifier, the end offset of the assignment token and the
  right child.
\<close>

definition named_assignment ::
    "EidosASTNode option \<Rightarrow> (string \<times> int \<times> EidosASTNode option) option" where
  "named_assignment AST =
     (case AST of
        None \<Rightarrow> None
      | Some block \<Rightarrow>
          if token_type (token block) = kTokenInterpreterBlock \<and> length (children block) = 1
          then
            (case children block ! 0 of
               None \<Rightarrow> None
             | Some top_node \<Rightarrow>
                 if token_type (token top_node) = kTokenAssign \<and> length (children top_node) = 2
                 then
                   (case children top_node ! 0 of
                      None \<Rightarrow> None
                    | Some left_node \<Rightarrow>
                        if token_type (token left_node) = kTokenIdentifier \<and>
                           length (children left_node) = 0
                        then Some (token_string (token left_node), token_end (token top_node),
                                   children top_node ! 1)
                        else None)
                 else None)
          else None)"

text \<open>
  The end of the loop body, reached by every constant that is not installed and has no
  illegal name: the flag is restored and the "malformed" diagnostic is put out, "without
  putting out a script line/character diagnostic".
\<close>

definition malformed ::
    "string \<Rightarrow> bool \<Rightarrow> bool \<Rightarrow> 'e eidos_state \<Rightarrow> string \<Rightarrow> 'e cmdline_outcome" where
  "malformed backtrace print_backtrace save_throws st constant =
     (let g = (globals st)\<lparr>gEidosTerminateThrows := save_throws\<rparr>;
          g1 = put (EIDOS_TERMINATION g) (malformed_message constant) g
      in if gEidosTerminateThrows g1
         then raise_termination backtrace print_backtrace [] (st\<lparr>globals := g1\<rparr>)
         else Terminated (exit_with EXIT_FAILURE)
                (st\<lparr>globals := put (EIDOS_TERMINATION g1) endl g1\<rparr>))"

text \<open>
  The body of the loop of \<^verbatim>\<open>Eidos_DefineConstantsFromCommandLine\<close> for one constant;
  \<open>Returned\<close> is its \<^verbatim>\<open>continue\<close>. During the loop \<^verbatim>\<open>gEidosTerminateThrows\<close> was set to
  true and \<open>save_throws\<close> holds what it was.
\<close>

definition define_constant ::
    "'e front_end \<Rightarrow> build \<Rightarrow> string \<Rightarrow> bool \<Rightarrow> bool \<Rightarrow> 'e eidos_state \<Rightarrow> string
      \<Rightarrow> 'e cmdline_outcome" where
  "define_constant F B backtrace print_backtrace save_throws st constant =
     (case parse_script F constant st of
        (None, st1) \<Rightarrow> malformed backtrace print_backtrace save_throws st1 constant
      | (Some AST, st1) \<Rightarrow>
          (case named_assignment AST of
             None \<Rightarrow> malformed backtrace print_backtrace save_throws st1 constant
           | Some (symbol_name, assign_end, right_node) \<Rightarrow>
               if Eidos_GoodSymbolForDefine symbol_name then
                 (case right_node of
                    None \<Rightarrow> malformed backtrace print_backtrace save_throws st1 constant
                  | Some r \<Rightarrow>
                      if assign_end + 1 < 0 \<or> assign_end + 1 > int (length constant)
                      then OutOfRange st1
                      else
                        (case Eidos_ValueForCommandLineExpression F B backtrace print_backtrace
                                st1 (drop (nat (assign_end + 1)) constant) of
                           Inl ended \<Rightarrow> ended
                         | Inr (None, st2) \<Rightarrow>
                             malformed backtrace print_backtrace save_throws st2 constant
                         | Inr (Some x_value_sp, st2) \<Rightarrow>
                             (case EidosGlobalStringIDForString (strings st2) symbol_name of
                                (symbol_id, strings') \<Rightarrow>
                                  (case InitializeConstantSymbolEntry B
                                          (gEidosConstantsSymbolTable st2) symbol_id
                                          x_value_sp of
                                     Inl e \<Rightarrow>
                                       raise_termination backtrace print_backtrace
                                         (initialize_message e) (st2\<lparr>strings := strings'\<rparr>)
                                   | Inr t' \<Rightarrow>
                                       Returned
                                         (st2\<lparr>gEidosConstantsSymbolTable := t',
                                              strings := strings'\<rparr>)))))
               else
                 raise_termination backtrace print_backtrace (illegal_name_message symbol_name)
                   (st1\<lparr>globals := (globals st1)\<lparr>gEidosTerminateThrows := save_throws\<rparr>\<rparr>)))"

fun define_constants ::
    "'e front_end \<Rightarrow> build \<Rightarrow> string \<Rightarrow> bool \<Rightarrow> bool \<Rightarrow> 'e eidos_state \<Rightarrow> string list
      \<Rightarrow> 'e cmdline_outcome" where
  "define_constants F B backtrace print_backtrace save_throws st [] =
     Returned (st\<lparr>globals := (globals st)\<lparr>gEidosTerminateThrows := save_throws\<rparr>\<rparr>)"
| "define_constants F B backtrace print_backtrace save_throws st (constant # rest) =
     (case define_constant F B backtrace print_backtrace save_throws st constant of
        Returned st' \<Rightarrow> define_constants F B backtrace print_backtrace save_throws st' rest
      | other \<Rightarrow> other)"

definition Eidos_DefineConstantsFromCommandLine ::
    "'e front_end \<Rightarrow> build \<Rightarrow> string \<Rightarrow> bool \<Rightarrow> 'e eidos_state \<Rightarrow> string list
      \<Rightarrow> 'e cmdline_outcome" where
  "Eidos_DefineConstantsFromCommandLine F B backtrace print_backtrace st p_constants =
     (let save_throws = gEidosTerminateThrows (globals st)
      in define_constants F B backtrace print_backtrace save_throws
           (st\<lparr>globals := (globals st)\<lparr>gEidosTerminateThrows := True\<rparr>\<rparr>) p_constants)"

section \<open>The command-line constants, stated apart from the code\<close>










section \<open>Small concrete tables\<close>

text \<open>Tables over integer elements, with a capacity of two slots, for the concrete instances below.\<close>

definition build2 :: build where
  "build2 = \<lparr>DEBUG = False, EIDOS_SYMBOL_TABLE_BASE_SIZE = 2, start_with_hash_default = False\<rparr>"

definition shared_int :: "int \<Rightarrow> nat \<Rightarrow> int EidosValue" where
  "shared_int x refs = \<lparr>elements = x, invisible = False, use_count = refs\<rparr>"

definition array_table :: "EidosSymbolTableType \<Rightarrow> int slots \<Rightarrow> int EidosSymbolTable" where
  "array_table ty sl =
     \<lparr>table_type = ty, using_internal_symbols = True, internal_symbols = sl, hash_symbols = []\<rparr>"


definition intrinsic_PI :: "int EidosSymbolTable" where
  "intrinsic_PI = array_table kEidosIntrinsicConstantsTable [(3, shared_int 314 1)]"

definition defined_G :: "int EidosSymbolTable" where
  "defined_G = array_table kEidosDefinedConstantsTable [(7, shared_int 10 1), (8, shared_int 20 1)]"

definition variables_x :: "int EidosSymbolTable" where
  "variables_x = array_table kVariablesTable [(9, shared_int 1 1)]"







definition startup_ops :: "interner_op list" where
  "startup_ops = [Register ''T'' 1, Intern ''x'', Register ''T'' 2, Intern ''y'', Intern ''x'']"

definition startup_result :: interner where
  "startup_result =
     \<lparr>gStringToID = [''T'' \<mapsto> 1, ''x'' \<mapsto> 3, ''y'' \<mapsto> 4],
      gIDToString = [1 \<mapsto> ''T'', 3 \<mapsto> ''x'', 4 \<mapsto> ''y''],
      gNextUnusedID = 5\<rparr>"

definition run_of_three :: MutationRun where
  "run_of_three =
     \<lparr>intrusive_ref_count = 1, mutation_count = 3, mutation_capacity = 4,
      mutations = [10, 11, 12], operation_id = 0\<rparr>"

definition pool_after_free :: run_pool where
  "pool_after_free =
     \<lparr>run_heap = [run_of_three\<lparr>mutation_count := 0\<rparr>], s_freed_mutation_runs = [0]\<rparr>"

definition parse_error_exit :: eidos_globals where
  "parse_error_exit =
     \<lparr>gEidosTerminateThrows = False, gEidosTermination = [],
      standard_error = ''ERROR (Parse): unexpected token.'',
      gEidosCharacterStartOfError = 8, gEidosCharacterEndOfError = 8,
      gEidosCurrentScript = Some ''x = 1 + ;'', gEidosExecutingRuntimeScript = False,
      gEidosErrorLine = -1, gEidosErrorLineCharacter = -1\<rparr>"

text \<open>
  An error at the semicolon of the second line of a script of three lines; the second line
  starts with a tab and ends with a carriage return.
\<close>

definition second_line_exit :: eidos_globals where
  "second_line_exit =
     \<lparr>gEidosTerminateThrows = False, gEidosTermination = [],
      standard_error = ''ERROR (Parse): unexpected token.'',
      gEidosCharacterStartOfError = 16, gEidosCharacterEndOfError = 16,
      gEidosCurrentScript =
        Some (''a;'' @ [CHR 0x0A] @ [CHR 0x09] @ ''value = 1 + ;'' @ [CHR 0x0D] @ ''b;''),
      gEidosExecutingRuntimeScript = False,
      gEidosErrorLine = -1, gEidosErrorLineCharacter = -1\<rparr>"

definition raise_thrown :: eidos_globals where
  "raise_thrown =
     \<lparr>gEidosTerminateThrows = True, gEidosTermination = ''ERROR (f): bad.'',
      standard_error = [],
      gEidosCharacterStartOfError = -1, gEidosCharacterEndOfError = -1,
      gEidosCurrentScript = None, gEidosExecutingRuntimeScript = False,
      gEidosErrorLine = -1, gEidosErrorLineCharacter = -1\<rparr>"

definition raise_exit :: eidos_globals where
  "raise_exit =
     \<lparr>gEidosTerminateThrows = False, gEidosTermination = [],
      standard_error = ''ERROR (f): bad.'',
      gEidosCharacterStartOfError = -1, gEidosCharacterEndOfError = -1,
      gEidosCurrentScript = None, gEidosExecutingRuntimeScript = False,
      gEidosErrorLine = -1, gEidosErrorLineCharacter = -1\<rparr>"





lemma scan_internal_take:
  "k \<le> length sl \<Longrightarrow>
   (case scan_internal sl n k of
      None \<Rightarrow> map_of (rev (take k sl)) n = None
    | Some i \<Rightarrow> i < k \<and> fst (sl ! i) = n \<and> map_of (rev (take k sl)) n = Some (snd (sl ! i)))"
proof (induction k)
  case 0
  then show ?case by simp
next
  case (Suc k)
  then have k: "k < length sl" by simp
  have tk: "take (Suc k) sl = take k sl @ [sl ! k]"
    using k by (simp add: take_Suc_conv_app_nth)
  show ?case
  proof (cases "fst (sl ! k) = n")
    case True
    then show ?thesis using tk by (cases "sl ! k") simp
  next
    case False
    with Suc k tk show ?thesis
      by (cases "sl ! k") (auto split: option.splits)
  qed
qed

lemma find_slot_None:
  "find_slot t n = None \<Longrightarrow> map_of (rev (internal_symbols t)) n = None"
  using scan_internal_take [of "length (internal_symbols t)" "internal_symbols t" n]
  by (simp add: find_slot_def)

lemma find_slot_Some:
  "find_slot t n = Some i \<Longrightarrow>
   i < length (internal_symbols t) \<and> fst (internal_symbols t ! i) = n \<and>
   map_of (rev (internal_symbols t)) n = Some (snd (internal_symbols t ! i))"
  using scan_internal_take [of "length (internal_symbols t)" "internal_symbols t" n]
  by (simp add: find_slot_def)

lemma find_slot_eq_None_iff:
  "find_slot t n = None \<longleftrightarrow> map_of (rev (internal_symbols t)) n = None"
  using find_slot_None [of t n] find_slot_Some [of t n]
  by (cases "find_slot t n") auto

lemma ContainsSymbol_iff:
  "ContainsSymbol ch n \<longleftrightarrow> nearest_holder ch n \<noteq> None"
proof (induction ch)
  case Nil
  then show ?case by (simp add: nearest_holder_def)
next
  case (Cons t ch)
  show ?case
  proof (cases "using_internal_symbols t")
    case True
    then show ?thesis
      using Cons find_slot_None [of t n] find_slot_Some [of t n]
      by (cases "find_slot t n") (auto simp: nearest_holder_def local_binding_def)
  next
    case False
    then show ?thesis
      using Cons
      by (cases "map_of (hash_symbols t) n") (auto simp: nearest_holder_def local_binding_def)
  qed
qed

section \<open>Lookup through the chain\<close>

text \<open>
  C1. For every chain and name, \<^verbatim>\<open>_GetValue\<close> returns the value that the nearest table
  holding the name binds to it (a table's own storage is searched before its parent, the
  internal array from the back), and when no table of the chain holds the name it raises
  the "undefined identifier" termination.
\<close>

theorem GetValue_nearest_holder:
  "GetValue ch n =
     (case nearest_holder ch n of
        Some t \<Rightarrow> Inr (the (local_binding t n))
      | None \<Rightarrow> Inl (UndefinedIdentifier n))"
proof (induction ch)
  case Nil
  then show ?case by (simp add: nearest_holder_def)
next
  case (Cons t ch)
  show ?case
  proof (cases "using_internal_symbols t")
    case True
    then show ?thesis
      using Cons find_slot_None [of t n] find_slot_Some [of t n]
      by (cases "find_slot t n") (auto simp: nearest_holder_def local_binding_def)
  next
    case False
    then show ?thesis
      using Cons
      by (cases "map_of (hash_symbols t) n") (auto simp: nearest_holder_def local_binding_def)
  qed
qed

section \<open>Lemmas about the storage of one table\<close>

lemma map_of_hash_insert:
  "map_of (hash_insert h k v) m =
     (if m = k \<and> map_of h k = None then Some v else map_of h m)"
  by (auto simp: hash_insert_def map_add_def split: option.splits)

lemma map_of_hash_assign:
  "map_of (hash_assign h k v) m =
     (if m = k then (if map_of h k = None then None else Some v) else map_of h m)"
  by (induction h) (auto simp: hash_assign_def)

lemma map_of_hash_erase:
  "map_of (hash_erase h k) m = (if m = k then None else map_of h m)"
  by (induction h) (auto simp: hash_erase_def)

lemma names_hash_insert:
  "fst ` set (hash_insert h k v) = insert k (fst ` set h)"
  by (auto simp: hash_insert_def map_of_eq_None_iff)

lemma names_hash_assign:
  "fst ` set (hash_assign h k v) = fst ` set h"
  by (induction h) (auto simp: hash_assign_def)

lemma distinct_hash_insert:
  "distinct (map fst h) \<Longrightarrow> distinct (map fst (hash_insert h k v))"
  by (auto simp: hash_insert_def map_of_eq_None_iff)

lemma distinct_hash_assign:
  "distinct (map fst h) \<Longrightarrow> distinct (map fst (hash_assign h k v))"
proof -
  have "map fst (hash_assign h k v) = map fst h"
    by (induction h) (auto simp: hash_assign_def)
  then show "distinct (map fst h) \<Longrightarrow> ?thesis" by simp
qed

lemma distinct_hash_erase:
  "distinct (map fst h) \<Longrightarrow> distinct (map fst (hash_erase h k))"
  by (simp add: hash_erase_def distinct_map_filter)

lemma map_of_foldl_insert:
  "map_of (foldl (\<lambda>h s. hash_insert h (fst s) (snd s)) h xs) m =
     (case map_of h m of Some v \<Rightarrow> Some v | None \<Rightarrow> map_of xs m)"
proof (induction xs arbitrary: h)
  case Nil
  then show ?case by (simp split: option.splits)
next
  case (Cons x xs)
  show ?case
    by (cases x) (auto simp: Cons map_of_hash_insert split: option.splits)
qed


lemma distinct_foldl_insert:
  "distinct (map fst h) \<Longrightarrow>
   distinct (map fst (foldl (\<lambda>h s. hash_insert h (fst s) (snd s)) h xs))"
  by (induction xs arbitrary: h) (auto simp: distinct_hash_insert)

lemma map_of_rev_distinct:
  "distinct (map fst xs) \<Longrightarrow> map_of (rev xs) = map_of xs"
  by (rule map_of_inject_set[THEN iffD2]) (simp_all add: distinct_rev rev_map[symmetric])

lemma scan_internal_last:
  "k \<le> length sl \<Longrightarrow> scan_internal sl n k = Some i \<Longrightarrow>
   (\<forall>j. i < j \<and> j < k \<longrightarrow> fst (sl ! j) \<noteq> n)"
proof (induction k)
  case 0
  then show ?case by simp
next
  case (Suc k)
  show ?case
  proof (cases "fst (sl ! k) = n")
    case True
    with Suc.prems show ?thesis by auto
  next
    case False
    with Suc have "\<forall>j. i < j \<and> j < k \<longrightarrow> fst (sl ! j) \<noteq> n" by simp
    with False show ?thesis by (auto simp: less_Suc_eq)
  qed
qed

lemma find_slot_last:
  "find_slot t n = Some i \<Longrightarrow> j < length (internal_symbols t) \<Longrightarrow> i < j \<Longrightarrow>
   fst (internal_symbols t ! j) \<noteq> n"
  using scan_internal_last [of "length (internal_symbols t)" "internal_symbols t" n i]
  by (simp add: find_slot_def)

lemma local_binding_internal:
  "using_internal_symbols t \<Longrightarrow>
   local_binding t n = map_option (\<lambda>i. snd (internal_symbols t ! i)) (find_slot t n)"
  using find_slot_None [of t n] find_slot_Some [of t n]
  by (cases "find_slot t n") (auto simp: local_binding_def)


lemma ContainsSymbol_Cons:
  "ContainsSymbol (t # p) n \<longleftrightarrow> local_binding t n \<noteq> None \<or> ContainsSymbol p n"
proof (cases "using_internal_symbols t")
  case True
  then show ?thesis
    by (cases "find_slot t n") (simp_all add: local_binding_internal)
next
  case False
  then show ?thesis
    by (simp add: local_binding_def split: option.splits)
qed

lemma ContainsSymbol_set:
  "ContainsSymbol ch n \<longleftrightarrow> (\<exists>u \<in> set ch. local_binding u n \<noteq> None)"
  by (induction ch) (auto simp: ContainsSymbol_Cons simp del: ContainsSymbol.simps(2))

lemma drop_no_name:
  assumes "\<forall>j. i < j \<and> j < length sl \<longrightarrow> fst (sl ! j) \<noteq> n"
  shows "map_of (rev (drop (Suc i) sl)) n = None"
proof -
  have "n \<notin> fst ` set (drop (Suc i) sl)"
  proof
    assume "n \<in> fst ` set (drop (Suc i) sl)"
    then obtain x where x: "x \<in> set (drop (Suc i) sl)" "fst x = n" by auto
    then obtain j where "j < length (drop (Suc i) sl)" "drop (Suc i) sl ! j = x"
      by (auto simp: in_set_conv_nth)
    then have j: "Suc i + j < length sl" "sl ! (Suc i + j) = x" by auto
    have "i < Suc i + j" by simp
    with assms j(1) have "fst (sl ! (Suc i + j)) \<noteq> n" by blast
    with j(2) x(2) show False by simp
  qed
  then show ?thesis by (simp add: map_of_eq_None_iff)
qed

lemma map_of_rev_update:
  assumes i: "i < length sl" and nm: "fst (sl ! i) = n"
    and last: "\<forall>j. i < j \<and> j < length sl \<longrightarrow> fst (sl ! j) \<noteq> n"
  shows "map_of (rev (sl[i := (n, v)])) m = (if m = n then Some v else map_of (rev sl) m)"
proof -
  have d: "map_of (rev (drop (Suc i) sl)) n = None" using last by (rule drop_no_name)
  have a: "sl[i := (n, v)] = take i sl @ (n, v) # drop (Suc i) sl"
    using i by (simp add: upd_conv_take_nth_drop)
  have b: "sl = take i sl @ sl ! i # drop (Suc i) sl"
    using i by (simp add: id_take_nth_drop)
  have "map_of (rev (take i sl @ (n, v) # drop (Suc i) sl)) m =
        (if m = n then Some v else map_of (rev (take i sl @ sl ! i # drop (Suc i) sl)) m)"
    using d nm by (cases "sl ! i") (auto simp: map_add_def split: option.splits)
  then show ?thesis using a b by simp
qed

lemma map_fst_update_same:
  "i < length sl \<Longrightarrow> map fst (sl[i := (fst (sl ! i), v)]) = map fst sl"
  by (simp add: map_update list_update_same_conv)

lemma SwitchToHash_local_binding:
  "wf_table t \<Longrightarrow> local_binding (SwitchToHash t) m = local_binding t m"
  by (auto simp: SwitchToHash_def local_binding_def wf_table_def map_of_foldl_insert
      map_of_rev_distinct split: if_splits)

lemma SwitchToHash_wf:
  "wf_table t \<Longrightarrow> wf_table (SwitchToHash t)"
  by (auto simp: SwitchToHash_def wf_table_def distinct_foldl_insert split: if_splits)

lemma SwitchToHash_fields:
  "\<not> using_internal_symbols (SwitchToHash t)" "table_type (SwitchToHash t) = table_type t"
  by (auto simp: SwitchToHash_def)

lemma set_in_hash_Inl:
  "set_in_hash t p n v = Inl x \<longleftrightarrow>
     x = (RedefinitionOfConstant n, t # p) \<and> map_of (hash_symbols t) n = None \<and> ContainsSymbol p n"
  by (auto simp: set_in_hash_def split: option.splits)

lemma set_in_hash_Inr:
  assumes "set_in_hash t p n v = Inr ch'" and "\<not> using_internal_symbols t"
  shows "\<exists>t'. ch' = t' # p \<and> table_type t' = table_type t \<and> \<not> using_internal_symbols t' \<and>
           internal_symbols t' = internal_symbols t \<and>
           local_binding t' n = Some v \<and>
           (\<forall>m. m \<noteq> n \<longrightarrow> local_binding t' m = local_binding t m) \<and>
           fst ` set (hash_symbols t') = insert n (fst ` set (hash_symbols t)) \<and>
           (distinct (map fst (hash_symbols t)) \<longrightarrow> distinct (map fst (hash_symbols t')))"
proof (cases "map_of (hash_symbols t) n")
  case None
  with assms have "ch' = t\<lparr>hash_symbols := hash_insert (hash_symbols t) n v\<rparr> # p"
    by (auto simp: set_in_hash_def split: if_splits)
  with None assms(2) show ?thesis
    by (intro exI [of _ "t\<lparr>hash_symbols := hash_insert (hash_symbols t) n v\<rparr>"])
       (simp add: local_binding_def map_of_hash_insert names_hash_insert distinct_hash_insert)
next
  case (Some old)
  then have "n \<in> fst ` set (hash_symbols t)"
    by (metis map_of_eq_None_iff option.distinct(1))
  moreover from Some assms have "ch' = t\<lparr>hash_symbols := hash_assign (hash_symbols t) n v\<rparr> # p"
    by (auto simp: set_in_hash_def)
  ultimately show ?thesis using Some assms(2)
    by (intro exI [of _ "t\<lparr>hash_symbols := hash_assign (hash_symbols t) n v\<rparr>"])
       (auto simp: local_binding_def map_of_hash_assign names_hash_assign distinct_hash_assign)
qed

lemma set_symbol_Inl:
  "set_symbol B t p n v = Inl x \<longleftrightarrow>
     x = (RedefinitionOfConstant n, t # p) \<and> local_binding t n = None \<and> ContainsSymbol p n"
proof (cases "using_internal_symbols t")
  case True
  show ?thesis
  proof (cases "find_slot t n")
    case None
    with True show ?thesis
      by (auto simp: set_symbol_def local_binding_internal set_in_hash_Inl)
  next
    case (Some i)
    with True show ?thesis
      by (auto simp: set_symbol_def local_binding_internal)
  qed
next
  case False
  then show ?thesis
    by (auto simp: set_symbol_def set_in_hash_Inl local_binding_def)
qed

lemma set_symbol_Inr:
  assumes "set_symbol B t p n v = Inr ch'"
  shows "\<exists>t'. ch' = t' # p \<and> table_type t' = table_type t \<and>
           (\<not> using_internal_symbols t \<longrightarrow> \<not> using_internal_symbols t') \<and>
           local_binding t' n = Some v \<and>
           (wf_table t \<longrightarrow> wf_table t' \<and> (\<forall>m. m \<noteq> n \<longrightarrow> local_binding t' m = local_binding t m))"
proof (cases "using_internal_symbols t")
  case False
  with assms have h: "set_in_hash t p n v = Inr ch'" by (simp add: set_symbol_def)
  from set_in_hash_Inr [OF h False] False show ?thesis
    by (auto simp: wf_table_def)
next
  case True
  show ?thesis
  proof (cases "find_slot t n")
    case (Some i)
    let ?sl = "internal_symbols t"
    from find_slot_Some [OF Some] have i: "i < length ?sl" "fst (?sl ! i) = n" by auto
    have last: "\<forall>j. i < j \<and> j < length ?sl \<longrightarrow> fst (?sl ! j) \<noteq> n"
      using find_slot_last [OF Some] by blast
    have ch': "ch' = t\<lparr>internal_symbols := ?sl[i := (n, v)]\<rparr> # p"
      using assms True Some i by (simp add: set_symbol_def)
    have lb: "\<And>m. map_of (rev (?sl[i := (n, v)])) m = (if m = n then Some v else map_of (rev ?sl) m)"
      using map_of_rev_update [OF i last] by simp
    have mf: "map fst (?sl[i := (n, v)]) = map fst ?sl"
      using map_fst_update_same [OF i(1), of v] i(2) by simp
    show ?thesis
      using True ch' lb mf
      by (intro exI [of _ "t\<lparr>internal_symbols := ?sl[i := (n, v)]\<rparr>"])
         (simp add: local_binding_def wf_table_def)
  next
    case None
    have nn: "n \<notin> fst ` set (internal_symbols t)"
      using find_slot_None [OF None] by (simp add: map_of_eq_None_iff)
    show ?thesis
    proof (cases "length (internal_symbols t) < EIDOS_SYMBOL_TABLE_BASE_SIZE B")
      case True
      with assms \<open>using_internal_symbols t\<close> None
      have "ch' = t\<lparr>internal_symbols := internal_symbols t @ [(n, v)]\<rparr> # p"
        by (auto simp: set_symbol_def split: if_splits)
      with \<open>using_internal_symbols t\<close> nn show ?thesis
        by (intro exI [of _ "t\<lparr>internal_symbols := internal_symbols t @ [(n, v)]\<rparr>"])
           (simp add: local_binding_def wf_table_def)
    next
      case False
      with assms \<open>using_internal_symbols t\<close> None
      have h: "set_in_hash (SwitchToHash t) p n v = Inr ch'"
        by (auto simp: set_symbol_def split: if_splits)
      from set_in_hash_Inr [OF h SwitchToHash_fields(1)]
      obtain t' where t': "ch' = t' # p" "table_type t' = table_type (SwitchToHash t)"
        "\<not> using_internal_symbols t'" "internal_symbols t' = internal_symbols (SwitchToHash t)"
        "local_binding t' n = Some v"
        "\<forall>m. m \<noteq> n \<longrightarrow> local_binding t' m = local_binding (SwitchToHash t) m"
        "distinct (map fst (hash_symbols (SwitchToHash t))) \<longrightarrow> distinct (map fst (hash_symbols t'))"
        by blast
      have "wf_table t \<Longrightarrow> wf_table t'"
        using SwitchToHash_wf [of t] t' by (auto simp: wf_table_def SwitchToHash_fields)
      with t' show ?thesis
        by (intro exI [of _ t']) (simp add: SwitchToHash_fields SwitchToHash_local_binding)
    qed
  qed
qed






lemma set_remove_slot_subset:
  "i < length sl \<Longrightarrow> set (remove_slot sl i) \<subseteq> set sl"
proof -
  assume i: "i < length sl"
  then have "set (sl[i := sl ! (length sl - 1)]) \<subseteq> set sl"
    by (intro set_update_subsetI) auto
  then show ?thesis
    by (auto simp: remove_slot_def Let_def dest: in_set_butlastD)
qed

lemma remove_slot_snoc:
  "i \<le> length xs \<Longrightarrow>
   remove_slot (xs @ [l]) i = (if i = length xs then xs else take i xs @ l # drop (Suc i) xs)"
proof (cases "i = length xs")
  case True
  then show ?thesis by (simp add: remove_slot_def)
next
  case False
  assume "i \<le> length xs"
  with False have il: "i < length xs" by simp
  then have "(xs @ [l])[i := l] = xs[i := l] @ [l]"
    by (simp add: list_update_append)
  then have "butlast ((xs @ [l])[i := l]) = xs[i := l]"
    by (simp only: butlast_snoc)
  moreover have "xs[i := l] = take i xs @ l # drop (Suc i) xs"
    using il by (simp add: upd_conv_take_nth_drop)
  ultimately have "butlast ((xs @ [l])[i := l]) = take i xs @ l # drop (Suc i) xs"
    by simp
  moreover have "remove_slot (xs @ [l]) i = butlast ((xs @ [l])[i := l])"
    using il by (simp add: remove_slot_def)
  ultimately show ?thesis using False by simp
qed

lemma remove_slot_distinct:
  assumes d: "distinct (map fst sl)" and i: "i < length sl"
  shows "distinct (map fst (remove_slot sl i)) \<and> set (remove_slot sl i) = set sl - {sl ! i}"
proof -
  from i have ne: "sl \<noteq> []" by auto
  define xs l where "xs = butlast sl" and "l = last sl"
  have sl: "sl = xs @ [l]" using ne by (simp add: xs_def l_def)
  have i': "i \<le> length xs" using i sl by simp
  show ?thesis
  proof (cases "i = length xs")
    case True
    then show ?thesis using d sl i' by (auto simp: remove_slot_snoc)
  next
    case False
    with i' have il: "i < length xs" by simp
    have xs: "xs = take i xs @ xs ! i # drop (Suc i) xs"
      using il by (simp add: id_take_nth_drop)
    have "sl = take i xs @ xs ! i # drop (Suc i) xs @ [l]"
      using sl xs by simp
    then have dd: "distinct (map fst (take i xs @ xs ! i # drop (Suc i) xs @ [l]))"
      using d by simp
    have nth: "sl ! i = xs ! i" using sl il by (simp add: nth_append)
    have rs: "remove_slot sl i = take i xs @ l # drop (Suc i) xs"
      using sl il by (simp add: remove_slot_snoc)
    have "set xs = set (take i xs @ xs ! i # drop (Suc i) xs)"
      using xs by simp
    then have set_sl: "set sl = set (take i xs) \<union> {xs ! i} \<union> set (drop (Suc i) xs) \<union> {l}"
      using sl by auto
    from dd have "distinct (map fst (take i xs @ l # drop (Suc i) xs))" by auto
    moreover from dd have "xs ! i \<notin> set (take i xs)" "xs ! i \<notin> set (drop (Suc i) xs)" "xs ! i \<noteq> l"
      by (auto simp: image_iff)
    ultimately show ?thesis using rs set_sl nth by auto
  qed
qed

lemma map_of_remove_slot:
  assumes d: "distinct (map fst sl)" and i: "i < length sl"
  shows "map_of (rev (remove_slot sl i)) m =
           (if m = fst (sl ! i) then None else map_of (rev sl) m)"
proof -
  from remove_slot_distinct [OF d i]
  have d': "distinct (map fst (remove_slot sl i))"
    and s': "set (remove_slot sl i) = set sl - {sl ! i}" by auto
  have inj: "inj_on fst (set sl)" using d by (simp add: distinct_map)
  have mem: "sl ! i \<in> set sl" using i by simp
  have a: "map_of (rev (remove_slot sl i)) = map_of (remove_slot sl i)"
    using d' by (rule map_of_rev_distinct)
  have b: "map_of (rev sl) = map_of sl" using d by (rule map_of_rev_distinct)
  show ?thesis
  proof (cases "m = fst (sl ! i)")
    case True
    have "m \<notin> fst ` set (remove_slot sl i)"
    proof
      assume "m \<in> fst ` set (remove_slot sl i)"
      then obtain x where x: "x \<in> set sl" "x \<noteq> sl ! i" "fst x = m" using s' by auto
      with True inj mem show False by (auto dest: inj_onD)
    qed
    with True a show ?thesis by (simp add: map_of_eq_None_iff)
  next
    case False
    have eq: "(map_of (remove_slot sl i) m = Some v) = (map_of sl m = Some v)" for v
    proof -
      have "(map_of (remove_slot sl i) m = Some v) = ((m, v) \<in> set (remove_slot sl i))"
        using d' by (rule map_of_eq_Some_iff)
      moreover have "(map_of sl m = Some v) = ((m, v) \<in> set sl)"
        using d by (rule map_of_eq_Some_iff)
      moreover have "(m, v) \<noteq> sl ! i" using False by (cases "sl ! i") auto
      ultimately show ?thesis using s' by simp
    qed
    have "map_of (remove_slot sl i) m = map_of sl m"
    proof (cases "map_of sl m")
      case None
      show ?thesis
      proof (cases "map_of (remove_slot sl i) m")
        case (Some a)
        with eq [of a] None show ?thesis by simp
      qed (simp add: None)
    next
      case (Some w)
      with eq [of w] show ?thesis by simp
    qed
    with False a b show ?thesis by simp
  qed
qed

section \<open>Lemmas about removal\<close>

lemma RemoveSymbol_skip:
  "local_binding t n = None \<Longrightarrow>
   RemoveSymbol (t # p) n rc =
     (case RemoveSymbol p n rc of Inl (e, p') \<Rightarrow> Inl (e, t # p') | Inr p' \<Rightarrow> Inr (t # p'))"
proof (cases "using_internal_symbols t")
  case True
  assume "local_binding t n = None"
  with True have "find_slot t n = None" by (simp add: local_binding_internal)
  with True show ?thesis by simp
next
  case False
  assume "local_binding t n = None"
  with False show ?thesis by (simp add: local_binding_def)
qed

lemma RemoveSymbol_refused:
  "local_binding t n \<noteq> None \<Longrightarrow> removal_refused t n rc = Some e \<Longrightarrow>
   RemoveSymbol (t # p) n rc = Inl (e, t # p)"
proof (cases "using_internal_symbols t")
  case True
  assume "local_binding t n \<noteq> None" "removal_refused t n rc = Some e"
  with True show ?thesis by (auto simp: local_binding_internal)
next
  case False
  assume "local_binding t n \<noteq> None" "removal_refused t n rc = Some e"
  with False show ?thesis by (auto simp: local_binding_def)
qed

lemma RemoveSymbol_here:
  assumes "local_binding t n \<noteq> None" and "removal_refused t n rc = None"
  shows "\<exists>t'. RemoveSymbol (t # p) n rc = Inr (t' # p) \<and> table_type t' = table_type t \<and>
           using_internal_symbols t' = using_internal_symbols t \<and>
           set (internal_symbols t') \<subseteq> set (internal_symbols t) \<and>
           set (hash_symbols t') \<subseteq> set (hash_symbols t) \<and>
           (wf_table t \<longrightarrow>
              wf_table t' \<and> local_binding t' n = None \<and>
              (\<forall>m. m \<noteq> n \<longrightarrow> local_binding t' m = local_binding t m))"
proof (cases "using_internal_symbols t")
  case True
  with assms obtain i where i: "find_slot t n = Some i"
    by (auto simp: local_binding_internal)
  let ?sl = "internal_symbols t"
  from find_slot_Some [OF i] have il: "i < length ?sl" and nm: "fst (?sl ! i) = n" by auto
  let ?t' = "t\<lparr>internal_symbols := remove_slot ?sl i\<rparr>"
  have r: "RemoveSymbol (t # p) n rc = Inr (?t' # p)"
    using True i assms(2) by simp
  have sub: "set (remove_slot ?sl i) \<subseteq> set ?sl" using il by (rule set_remove_slot_subset)
  have w: "wf_table ?t' \<and> local_binding ?t' n = None \<and>
        (\<forall>m. m \<noteq> n \<longrightarrow> local_binding ?t' m = local_binding t m)" if wf: "wf_table t"
  proof -
    from wf have d: "distinct (map fst ?sl)" by (simp add: wf_table_def)
    from remove_slot_distinct [OF d il] map_of_remove_slot [OF d il] nm wf True
    show ?thesis by (simp add: wf_table_def local_binding_def)
  qed
  show ?thesis
    using r sub w by (intro exI [of _ ?t']) simp
next
  case False
  let ?t' = "t\<lparr>hash_symbols := hash_erase (hash_symbols t) n\<rparr>"
  from False assms have "RemoveSymbol (t # p) n rc = Inr (?t' # p)"
    by (auto simp: local_binding_def)
  moreover have "set (hash_erase (hash_symbols t) n) \<subseteq> set (hash_symbols t)"
    by (auto simp: hash_erase_def)
  ultimately show ?thesis using False
    by (intro exI [of _ ?t'])
       (simp add: local_binding_def map_of_hash_erase wf_table_def distinct_hash_erase)
qed

lemma removal_refused_cases:
  "removal_refused t n rc =
     (case table_type t of
        kEidosIntrinsicConstantsTable \<Rightarrow> Some (IntrinsicNotRemovable n)
      | kEidosDefinedConstantsTable \<Rightarrow> if rc then None else Some (ConstantNotRemovable n)
      | kVariablesTable \<Rightarrow> None)"
  by (cases "table_type t") (simp_all add: removal_refused_def)


lemma removed_from_nearest_Cons:
  "local_binding t n = None \<Longrightarrow> removed_from_nearest ch n (Inr p') \<Longrightarrow>
   removed_from_nearest (t # ch) n (Inr (t # p'))"
  unfolding removed_from_nearest_def
  apply (elim exE conjE)
  subgoal for pre u u' post
    by (intro exI [of _ "t # pre"] exI [of _ u] exI [of _ u'] exI [of _ post]) simp
  done

lemma removed_from_nearest_Inr:
  "removed_from_nearest ch n r \<Longrightarrow> \<exists>p'. r = Inr p'"
  by (auto simp: removed_from_nearest_def)

lemma nearest_holder_Cons:
  "nearest_holder (t # ch) n = (if local_binding t n \<noteq> None then Some t else nearest_holder ch n)"
  by (simp add: nearest_holder_def)

section \<open>Lemmas about the switch to hash storage\<close>






section \<open>Lemmas about stored values and the definition of constants\<close>


















lemma ContainsSymbol_append:
  "ContainsSymbol (pre @ rest) n \<longleftrightarrow> ContainsSymbol pre n \<or> ContainsSymbol rest n"
  by (auto simp: ContainsSymbol_set)









section \<open>Lemmas about the interner\<close>

lemma interner_ok_start: "interner_ok L (interner_start L)"
  by (simp add: interner_ok_def interner_start_def)

lemma word_less_succ:
  fixes x :: "32 word"
  assumes "unat x + 1 < 2 ^ 32"
  shows "unat (x + 1) = unat x + 1"
  using assms by (simp add: unat_word_ariths)

lemma intern_step:
  assumes ok: "interner_ok L g" and room: "unat (gNextUnusedID g) + 1 < 2 ^ 32"
    and r: "EidosGlobalStringIDForString g s = (i, g')"
  shows "interner_ok L g' \<and> gStringToID g' s = Some i \<and>
         (\<forall>j t. gIDToString g' j = Some t \<longleftrightarrow> gIDToString g j = Some t \<or> (j, t) = (i, s)) \<and>
         unat (gNextUnusedID g') \<le> unat (gNextUnusedID g) + 1"
proof (cases "gStringToID g s")
  case (Some found)
  with r have "i = found" "g' = g" by (auto simp: EidosGlobalStringIDForString_def)
  with Some ok show ?thesis by (auto simp: interner_ok_def)
next
  case None
  let ?n = "gNextUnusedID g"
  from None r have i: "i = ?n"
    and g': "g' = g\<lparr>gNextUnusedID := ?n + 1, gStringToID := (gStringToID g)(s \<mapsto> ?n),
                      gIDToString := (gIDToString g)(?n \<mapsto> s)\<rparr>"
    by (auto simp: EidosGlobalStringIDForString_def Let_def)
  have fresh: "gIDToString g ?n = None"
  proof (cases "gIDToString g ?n")
    case (Some t)
    with ok have "?n < L \<or> ?n < ?n" by (auto simp: interner_ok_def)
    moreover from ok have "L \<le> ?n" by (simp add: interner_ok_def)
    ultimately show ?thesis by auto
  qed simp
  have un: "unat (?n + 1) = unat ?n + 1" using room by (rule word_less_succ)
  then have lt: "?n < ?n + 1" by (simp add: word_less_nat_alt)
  then have le: "?n \<le> ?n + 1" by simp
  have a: "\<forall>t j. gStringToID g' t = Some j \<longrightarrow> gIDToString g' j = Some t"
  proof (intro allI impI)
    fix t j assume h: "gStringToID g' t = Some j"
    show "gIDToString g' j = Some t"
    proof (cases "t = s")
      case True
      with h g' show ?thesis by simp
    next
      case False
      with h g' have old: "gStringToID g t = Some j" by simp
      with ok have oj: "gIDToString g j = Some t" by (auto simp: interner_ok_def)
      with fresh have "j \<noteq> ?n" by auto
      with oj g' show ?thesis by simp
    qed
  qed
  have b: "\<forall>j t. gIDToString g' j = Some t \<longrightarrow> j < L \<or> j < gNextUnusedID g'"
  proof (intro allI impI)
    fix j t assume h: "gIDToString g' j = Some t"
    show "j < L \<or> j < gNextUnusedID g'"
    proof (cases "j = ?n")
      case True
      with lt g' show ?thesis by simp
    next
      case False
      with h g' have "gIDToString g j = Some t" by simp
      with ok have "j < L \<or> j < ?n" by (auto simp: interner_ok_def)
      with lt g' show ?thesis by auto
    qed
  qed
  have c: "L \<le> gNextUnusedID g'"
    using ok le g' by (auto simp: interner_ok_def)
  have d: "\<forall>j t. gIDToString g' j = Some t \<longleftrightarrow> gIDToString g j = Some t \<or> (j, t) = (i, s)"
    using fresh g' i by auto
  have e: "unat (gNextUnusedID g') \<le> unat ?n + 1" using un g' by simp
  have okk: "interner_ok L g'" unfolding interner_ok_def using a b c by blast
  have si: "gStringToID g' s = Some i" using g' i by simp
  from okk si d e show ?thesis by blast
qed

lemma register_step:
  assumes ok: "interner_ok L g"
    and r: "Eidos_RegisterStringForGlobalID L g s i = Inr g'"
  shows "interner_ok L g' \<and>
         (\<forall>j t. gIDToString g' j = Some t \<longleftrightarrow> gIDToString g j = Some t \<or> (j, t) = (i, s)) \<and>
         gNextUnusedID g' = gNextUnusedID g"
proof -
  from r have fs: "gStringToID g s = None" and fi: "gIDToString g i = None" and lt: "i < L"
    and g': "g' = g\<lparr>gStringToID := (gStringToID g)(s \<mapsto> i),
                      gIDToString := (gIDToString g)(i \<mapsto> s)\<rparr>"
    by (auto simp: Eidos_RegisterStringForGlobalID_def split: if_splits)
  have a: "\<forall>t j. gStringToID g' t = Some j \<longrightarrow> gIDToString g' j = Some t"
  proof (intro allI impI)
    fix t j assume h: "gStringToID g' t = Some j"
    show "gIDToString g' j = Some t"
    proof (cases "t = s")
      case True
      with h g' show ?thesis by simp
    next
      case False
      with h g' have "gStringToID g t = Some j" by simp
      with ok have oj: "gIDToString g j = Some t" by (auto simp: interner_ok_def)
      with fi have "j \<noteq> i" by auto
      with oj g' show ?thesis by simp
    qed
  qed
  have b: "\<forall>j t. gIDToString g' j = Some t \<longrightarrow> j < L \<or> j < gNextUnusedID g'"
  proof (intro allI impI)
    fix j t assume h: "gIDToString g' j = Some t"
    show "j < L \<or> j < gNextUnusedID g'"
    proof (cases "j = i")
      case True
      with lt show ?thesis by simp
    next
      case False
      with h g' have "gIDToString g j = Some t" by simp
      with ok g' show ?thesis by (auto simp: interner_ok_def)
    qed
  qed
  have c: "L \<le> gNextUnusedID g'" using ok g' by (simp add: interner_ok_def)
  have d: "\<forall>j t. gIDToString g' j = Some t \<longleftrightarrow> gIDToString g j = Some t \<or> (j, t) = (i, s)"
    using fi g' by auto
  have okk: "interner_ok L g'" unfolding interner_ok_def using a b c by blast
  have nx: "gNextUnusedID g' = gNextUnusedID g" using g' by simp
  from okk d nx show ?thesis by blast
qed

lemma run_interner_log:
  assumes "interner_ok L g" and "unat (gNextUnusedID g) + length ops < 2 ^ 32"
    and "run_interner L g ops = (g', issued)"
  shows "interner_ok L g' \<and>
         (\<forall>j t. gIDToString g' j = Some t \<longleftrightarrow> gIDToString g j = Some t \<or> (j, t) \<in> set issued)"
  using assms
proof (induction ops arbitrary: g g' issued)
  case Nil
  then show ?case by simp
next
  case (Cons x ops)
  show ?case
  proof (cases x)
    case (Intern s)
    obtain i g1 where e: "EidosGlobalStringIDForString g s = (i, g1)"
      by (cases "EidosGlobalStringIDForString g s") auto
    obtain g2 log where rr: "run_interner L g1 ops = (g2, log)"
      by (cases "run_interner L g1 ops") auto
    from Cons.prems(3) Intern e rr have res: "g' = g2" "issued = (i, s) # log" by auto
    from Cons.prems(2) have room: "unat (gNextUnusedID g) + 1 < 2 ^ 32" by simp
    from intern_step [OF Cons.prems(1) room e]
    have ok1: "interner_ok L g1"
      and m1: "\<forall>j t. gIDToString g1 j = Some t \<longleftrightarrow> gIDToString g j = Some t \<or> (j, t) = (i, s)"
      and n1: "unat (gNextUnusedID g1) \<le> unat (gNextUnusedID g) + 1" by auto
    from n1 Cons.prems(2) have room1: "unat (gNextUnusedID g1) + length ops < 2 ^ 32" by simp
    from Cons.IH [OF ok1 room1 rr] m1 res show ?thesis by auto
  next
    case (Register s i)
    show ?thesis
    proof (cases "Eidos_RegisterStringForGlobalID L g s i")
      case (Inl e)
      with Cons.prems(3) Register have rr: "run_interner L g ops = (g', issued)" by simp
      from Cons.prems(2) have "unat (gNextUnusedID g) + length ops < 2 ^ 32" by simp
      from Cons.IH [OF Cons.prems(1) this rr] show ?thesis .
    next
      case (Inr g1)
      obtain g2 log where rr: "run_interner L g1 ops = (g2, log)"
        by (cases "run_interner L g1 ops") auto
      from Cons.prems(3) Register Inr rr have res: "g' = g2" "issued = (i, s) # log" by auto
      from register_step [OF Cons.prems(1) Inr]
      have ok1: "interner_ok L g1"
        and m1: "\<forall>j t. gIDToString g1 j = Some t \<longleftrightarrow> gIDToString g j = Some t \<or> (j, t) = (i, s)"
        and n1: "gNextUnusedID g1 = gNextUnusedID g" by auto
      from n1 Cons.prems(2) have room1: "unat (gNextUnusedID g1) + length ops < 2 ^ 32" by simp
      from Cons.IH [OF ok1 room1 rr] m1 res show ?thesis by auto
    qed
  qed
qed

section \<open>Lemmas about the pool of mutation runs\<close>

lemma freed_runs_empty_iff:
  "freed_runs_empty st \<longleftrightarrow>
     (\<forall>p \<in> set (s_freed_mutation_runs st).
        p < length (run_heap st) \<and> mutation_count (run_heap st ! p) = 0)"
  by (simp add: freed_runs_empty_def list_all_iff)

lemma pool_ok_start: "pool_ok pool_start"
  by (simp add: pool_ok_def freed_runs_empty_def pool_start_def)

lemma NewMutationRun_ok:
  assumes "pool_ok st"
  shows "pool_ok (snd (NewMutationRun st)) \<and>
         size_of_run (snd (NewMutationRun st)) (fst (NewMutationRun st)) = 0 \<and>
         in_use (snd (NewMutationRun st)) (fst (NewMutationRun st))"
proof (cases "s_freed_mutation_runs st = []")
  case True
  with assms show ?thesis
    by (simp add: NewMutationRun_def pool_ok_def freed_runs_empty_iff size_of_run_def in_use_def
        MutationRun_constructed_def)
next
  case False
  let ?f = "s_freed_mutation_runs st"
  from False have sp: "?f = butlast ?f @ [last ?f]" by simp
  from assms have d: "distinct ?f" and e: "\<forall>p \<in> set ?f.
        p < length (run_heap st) \<and> mutation_count (run_heap st ! p) = 0"
    by (simp_all add: pool_ok_def freed_runs_empty_iff)
  have mem: "last ?f \<in> set ?f" using False by simp
  have "distinct (butlast ?f @ [last ?f])" using d sp by simp
  then have nin: "last ?f \<notin> set (butlast ?f)" and db: "distinct (butlast ?f)" by simp_all
  have sub: "set (butlast ?f) \<subseteq> set ?f" by (auto dest: in_set_butlastD)
  from False e mem nin db sub show ?thesis
    by (auto simp: NewMutationRun_def Let_def pool_ok_def freed_runs_empty_iff size_of_run_def
        in_use_def)
qed

lemma FreeMutationRun_ok:
  assumes "pool_ok st" and "in_use st p"
  shows "pool_ok (FreeMutationRun st p)"
  using assms
  by (auto simp: FreeMutationRun_def pool_ok_def freed_runs_empty_iff in_use_def nth_list_update)

lemma Overwrite_ok:
  assumes "pool_ok st" and "in_use st p"
  shows "pool_ok (st\<lparr>run_heap := (run_heap st)[p := r]\<rparr>)"
  using assms
  by (auto simp: pool_ok_def freed_runs_empty_iff in_use_def nth_list_update)

lemma Release_ok:
  assumes "pool_ok st" and "in_use st p"
  shows "pool_ok (Eidos_intrusive_ptr_release st p)"
proof -
  let ?r = "st\<lparr>run_heap := (run_heap st)
              [p := (run_heap st ! p)
                 \<lparr>intrusive_ref_count := intrusive_ref_count (run_heap st ! p) - 1\<rparr>]\<rparr>"
  have ok: "pool_ok ?r" using assms by (rule Overwrite_ok)
  have iu: "in_use ?r p" using assms(2) by (simp add: in_use_def)
  show ?thesis
    using ok FreeMutationRun_ok [OF ok iu]
    by (simp add: Eidos_intrusive_ptr_release_def Let_def)
qed

lemma pool_step_ok:
  "pool_ok st \<Longrightarrow> pool_step st x = Some st' \<Longrightarrow> pool_ok st'"
  by (cases x)
     (auto simp: NewMutationRun_ok FreeMutationRun_ok Release_ok Overwrite_ok split: if_splits)

lemma pool_run_ok:
  "pool_ok st \<Longrightarrow> pool_run st ops = Some st' \<Longrightarrow> pool_ok st'"
proof (induction ops arbitrary: st)
  case Nil
  then show ?case by simp
next
  case (Cons x ops)
  then obtain st1 where s: "pool_step st x = Some st1" "pool_run st1 ops = Some st'"
    by (auto split: option.splits)
  from pool_step_ok [OF Cons.prems(1) s(1)] Cons.IH s(2) show ?case by blast
qed

section \<open>Lemmas about termination\<close>

lemma last_not_of_append:
  "k \<le> length xs \<Longrightarrow> last_not_of (xs @ ys) cs k = last_not_of xs cs k"
  by (induction k) (simp_all add: nth_append)

lemma find_last_not_of_snoc:
  "find_last_not_of (xs @ [x]) cs =
     (if x \<notin> set cs then Some (length xs) else find_last_not_of xs cs)"
  by (simp add: find_last_not_of_def last_not_of_append)

lemma without_trailing_breaks_snoc:
  "without_trailing_breaks (xs @ [x]) =
     (if is_line_break x then without_trailing_breaks xs else xs @ [x])"
  by (simp add: without_trailing_breaks_def)

lemma is_line_break_set: "is_line_break x \<longleftrightarrow> x \<in> set [CHR 0x0A, CHR 0x0D]"
  by (auto simp: is_line_break_def)

lemma find_last_not_of_breaks:
  "(case find_last_not_of s [CHR 0x0A, CHR 0x0D] of
      None \<Rightarrow> without_trailing_breaks s = []
    | Some endpos \<Rightarrow>
        endpos < length s \<and>
        take (endpos + 1) s = without_trailing_breaks s \<and> without_trailing_breaks s \<noteq> [])"
proof (induction s rule: rev_induct)
  case Nil
  then show ?case by (simp add: find_last_not_of_def without_trailing_breaks_def)
next
  case (snoc x xs)
  show ?case
  proof (cases "is_line_break x")
    case True
    then have x: "x \<in> set [CHR 0x0A, CHR 0x0D]" by (simp add: is_line_break_def)
    have f: "find_last_not_of (xs @ [x]) [CHR 0x0A, CHR 0x0D]
               = find_last_not_of xs [CHR 0x0A, CHR 0x0D]"
      using x by (auto simp: find_last_not_of_snoc)
    have w: "without_trailing_breaks (xs @ [x]) = without_trailing_breaks xs"
      using True by (simp add: without_trailing_breaks_snoc)
    show ?thesis
    proof (cases "find_last_not_of xs [CHR 0x0A, CHR 0x0D]")
      case None
      with snoc f w show ?thesis by simp
    next
      case (Some k)
      with snoc have k: "take (k + 1) xs = without_trailing_breaks xs"
        "without_trailing_breaks xs \<noteq> []" and kl: "k < length xs" by simp_all
      from kl have "take (k + 1) (xs @ [x]) = take (k + 1) xs" by simp
      with Some f w k kl show ?thesis by simp
    qed
  next
    case False
    then have x: "x \<notin> set [CHR 0x0A, CHR 0x0D]" by (simp add: is_line_break_def)
    have f: "find_last_not_of (xs @ [x]) [CHR 0x0A, CHR 0x0D] = Some (length xs)"
      using x by (auto simp: find_last_not_of_snoc)
    with False show ?thesis by (simp add: without_trailing_breaks_snoc)
  qed
qed

lemma EidosGetTrimmedRaiseMessage_throws:
  "gEidosTerminateThrows g \<Longrightarrow>
   EidosGetTrimmedRaiseMessage g =
     (if without_trailing_breaks (gEidosTermination g) = [] then gEidosTermination g
      else without_trailing_breaks (gEidosTermination g),
      g\<lparr>gEidosTermination := []\<rparr>)"
  using find_last_not_of_breaks [of "gEidosTermination g"]
  by (auto simp: EidosGetTrimmedRaiseMessage_def Let_def gEidosStr_empty_string_def
      split: option.splits)

lemma without_trailing_breaks_endl:
  "without_trailing_breaks (s @ endl) = without_trailing_breaks s"
  by (simp add: without_trailing_breaks_def endl_def is_line_break_def)

lemma eidos_log_script_error_no_position:
  "\<not> position_recorded g0 \<Longrightarrow>
   eidos_log_script_error p_out (gEidosCharacterStartOfError g0) (gEidosCharacterEndOfError g0)
     (gEidosCurrentScript g0) il g = Some g"
  by (auto simp: eidos_log_script_error_def position_recorded_def split: option.splits)

lemma line_start_up_to_break:
  "k \<le> length s \<Longrightarrow> line_start s k = k - length (up_to_break (rev (take k s)))"
proof (induction k)
  case 0
  then show ?case by simp
next
  case (Suc k)
  then have k: "k < length s" by simp
  then have t: "rev (take (Suc k) s) = s ! k # rev (take k s)"
    by (simp add: take_Suc_conv_app_nth)
  have l: "length (up_to_break (rev (take k s))) \<le> k"
    unfolding up_to_break_def
    using length_takeWhile_le [of "\<lambda>c. c \<noteq> CHR 0x0A \<and> c \<noteq> CHR 0x0D" "rev (take k s)"] k
    by simp
  show ?case
  proof (cases "is_line_break (s ! k)")
    case True
    then show ?thesis by (auto simp: t up_to_break_def is_line_break_def)
  next
    case False
    with Suc k l show ?thesis by (simp add: t up_to_break_def is_line_break_def)
  qed
qed

lemma emit_line_up_to_break: "emit_line xs = expand_tabs (up_to_break xs)"
  by (induction xs) (simp_all add: expand_tabs_def up_to_break_def is_line_break_def)

lemma emit_indent_up_to_break: "emit_indent xs = blank_out (up_to_break xs)"
  by (induction xs) (simp_all add: blank_out_def up_to_break_def is_line_break_def)

lemma up_to_break_take:
  "(m < length xs \<Longrightarrow> is_line_break (xs ! m)) \<Longrightarrow> up_to_break (take m xs) = up_to_break xs"
proof (induction xs arbitrary: m)
  case Nil
  then show ?case by simp
next
  case (Cons x xs)
  show ?case
  proof (cases m)
    case 0
    with Cons.prems show ?thesis by (simp add: up_to_break_def is_line_break_def)
  next
    case (Suc j)
    have "up_to_break (take j xs) = up_to_break xs"
      using Cons.prems Suc by (intro Cons.IH) simp
    then show ?thesis using Suc by (simp add: up_to_break_def)
  qed
qed

lemma line_end_bounds:
  "e < length s \<Longrightarrow>
   e \<le> line_end s e \<and> line_end s e < length s \<and>
   (Suc (line_end s e) < length s \<longrightarrow> is_line_break (s ! Suc (line_end s e)))"
proof (induction s e rule: line_end.induct)
  case (1 s e)
  show ?case
  proof (cases "e + 1 < length s")
    case False
    with 1 show ?thesis by (simp add: line_end.simps [of s e])
  next
    case True
    show ?thesis
    proof (cases "is_line_break (s ! (e + 1))")
      case b: True
      with True 1 show ?thesis by (simp add: line_end.simps [of s e])
    next
      case b: False
      from 1(1) [OF True b] True
      have "e + 1 \<le> line_end s (e + 1) \<and> line_end s (e + 1) < length s \<and>
            (Suc (line_end s (e + 1)) < length s \<longrightarrow>
               is_line_break (s ! Suc (line_end s (e + 1))))" by simp
      with True b show ?thesis by (simp add: line_end.simps [of s e])
    qed
  qed
qed

lemma eidos_log_script_error_excerpt:
  assumes ps: "0 \<le> ps" "ps \<le> pe" "pe \<le> int (length s)" and ne: "s \<noteq> []"
  shows "eidos_log_script_error StdCerr ps pe (Some s) il g =
           Some (g\<lparr>standard_error := standard_error g @ script_excerpt s ps pe il,
                  gEidosErrorLine := error_line_number s ps,
                  gEidosErrorLineCharacter := ps - int (error_line_start s ps)\<rparr>)"
proof -
  define k where "k = (if nat ps < length s then nat ps else length s - 1)"
  define e where "e = (if nat pe < length s then nat pe else length s - 1)"
  define ls where "ls = line_start s k"
  define le where "le = line_end s e"
  have len: "0 < length s" using ne by simp
  have k: "k = min (nat ps) (length s - 1)" using len by (auto simp: k_def)
  have kl: "k \<le> length s" by (simp add: k_def)
  have ls: "ls = error_line_start s ps"
    unfolding error_line_start_def Let_def k [symmetric] ls_def
    using kl by (rule line_start_up_to_break)
  have lsk: "ls \<le> k"
    unfolding ls_def line_start_up_to_break [OF kl] by simp
  have ke: "k \<le> e" using ps len by (auto simp: k_def e_def)
  have el: "e < length s" using len by (auto simp: e_def)
  from line_end_bounds [OF el]
  have le: "e \<le> le" "le < length s" "Suc le < length s \<longrightarrow> is_line_break (s ! Suc le)"
    by (simp_all add: le_def)
  have lsle: "ls \<le> le" using lsk ke le(1) by linarith
  have "up_to_break (take (Suc le - ls) (drop ls s)) = up_to_break (drop ls s)"
  proof (rule up_to_break_take)
    assume "Suc le - ls < length (drop ls s)"
    then have a: "Suc le < length s" using lsle by simp
    have "drop ls s ! (Suc le - ls) = s ! Suc le"
      using lsle a by simp
    with le(3) a show "is_line_break (drop ls s ! (Suc le - ls))" by simp
  qed
  then have line: "emit_line (take (Suc le - ls) (drop ls s)) =
                     expand_tabs (up_to_break (drop ls s))"
    by (simp add: emit_line_up_to_break)
  have r: "eidos_log_script_error StdCerr ps pe (Some s) il g =
      Some (put StdCerr
              (endl @ ''Error on script line '' @
               put_int (1 + int (length (filter (\<lambda>c. c = CHR 0x0A) (take ls s)))) @
               '', character '' @ put_int (ps - int ls) @
               (if il then '' (inside runtime script block)'' else []) @
               '':'' @ endl @ endl @
               emit_line (take (Suc le - ls) (drop ls s)) @ endl @
               emit_indent (take (nat ps - ls) (drop ls s)) @
               replicate (nat (pe - ps + 1)) (CHR ''^'') @ endl)
              (g\<lparr>gEidosErrorLine := 1 + int (length (filter (\<lambda>c. c = CHR 0x0A) (take ls s))),
                 gEidosErrorLineCharacter := ps - int ls\<rparr>))"
    unfolding ls_def le_def k_def e_def
    using ps ne by (simp add: eidos_log_script_error_def Let_def)
  show ?thesis
    unfolding r line emit_indent_up_to_break
    unfolding ls
    by (simp add: put_def script_excerpt_def error_line_number_def)
qed

lemma terminate_throws:
  assumes "gEidosTerminateThrows g"
  shows "terminate bt (EIDOS_TERMINATION g) pb g =
           Some (runtime_error ''A runtime error occurred in Eidos'', marker_emitted bt pb g)"
  using assms
  by (simp add: terminate_def EIDOS_TERMINATION_def put_def marker_emitted_def Let_def)

lemma terminate_exits_excerpt:
  assumes ex: "\<not> gEidosTerminateThrows g"
  shows "terminate bt (EIDOS_TERMINATION g) pb g =
     (case gEidosCurrentScript g of
        Some s \<Rightarrow>
          if position_recorded g then
            if s = [] then None
            else Some (exit_with EXIT_FAILURE,
                   g\<lparr>standard_error :=
                       standard_error g @ endl @ (if pb then bt else []) @
                       script_excerpt s (gEidosCharacterStartOfError g)
                         (gEidosCharacterEndOfError g) (gEidosExecutingRuntimeScript g),
                     gEidosErrorLine := error_line_number s (gEidosCharacterStartOfError g),
                     gEidosErrorLineCharacter :=
                       gEidosCharacterStartOfError g
                       - int (error_line_start s (gEidosCharacterStartOfError g))\<rparr>)
          else Some (exit_with EXIT_FAILURE,
                 g\<lparr>standard_error := standard_error g @ endl @ (if pb then bt else [])\<rparr>)
      | None \<Rightarrow>
          Some (exit_with EXIT_FAILURE,
            g\<lparr>standard_error := standard_error g @ endl @ (if pb then bt else [])\<rparr>))"
proof -
  let ?g2 = "g\<lparr>standard_error := standard_error g @ endl @ (if pb then bt else [])\<rparr>"
  let ?ps = "gEidosCharacterStartOfError g" and ?pe = "gEidosCharacterEndOfError g"
  let ?log = "eidos_log_script_error StdCerr ?ps ?pe (gEidosCurrentScript g)
                (gEidosExecutingRuntimeScript g) ?g2"
  have t: "terminate bt (EIDOS_TERMINATION g) pb g =
             (case ?log of None \<Rightarrow> None | Some g3 \<Rightarrow> Some (exit_with EXIT_FAILURE, g3))"
    using ex by (simp add: terminate_def EIDOS_TERMINATION_def put_def Let_def)
  show ?thesis
  proof (cases "position_recorded g")
    case False
    from eidos_log_script_error_no_position [OF False] have l: "?log = Some ?g2" .
    with t False show ?thesis by (simp split: option.splits)
  next
    case True
    then obtain s where s: "gEidosCurrentScript g = Some s" "0 \<le> ?ps" "?ps \<le> ?pe"
      "?pe \<le> int (length s)"
      by (auto simp: position_recorded_def split: option.splits)
    show ?thesis
    proof (cases "s = []")
      case e: True
      with s have "?log = None" by (simp add: eidos_log_script_error_def)
      with t s(1) e True show ?thesis by simp
    next
      case ne: False
      from eidos_log_script_error_excerpt [OF s(2,3,4) ne, of "gEidosExecutingRuntimeScript g" ?g2]
      show ?thesis using t s(1) ne True by simp
    qed
  qed
qed
section \<open>Lemmas on the command-line constants\<close>

subsection \<open>The reserved names\<close>


lemma of_char_is:
  "(of_char c :: nat) = of_char d \<Longrightarrow> c = d"
  by simp






subsection \<open>The loop body\<close>
















lemma wf_table_one_storage: "wf_table t \<Longrightarrow> one_storage t"
  by (simp add: wf_table_def one_storage_def)






lemma define_constants_ended:
  "define_constant F B bt pb save st c = out \<Longrightarrow> (\<And>s. out \<noteq> Returned s) \<Longrightarrow>
   define_constants F B bt pb save st (c # rest) = out"
  by (cases out) auto


subsection \<open>The example front end\<close>








section \<open>Assignment to a symbol\<close>

text \<open>
  C2. \<^verbatim>\<open>SetValueForSymbol\<close> on a table \<open>V\<close> with ancestors raises a termination if and
  only if the name is not bound in \<open>V\<close> itself and is bound in some ancestor; the
  termination is the redefinition of a constant and the chain is then as it was (so after
  the attempt \<open>PI = 4\<close> the constant still has its value); otherwise the chain differs
  in \<open>V\<close> only, which now binds the name to the stored value and, the storage
  invariant given, binds every other name as before.
\<close>

theorem SetValueForSymbol_redefinition:
  "((\<exists>x. SetValueForSymbol B (V # ancestors) n v = Inl x) \<longleftrightarrow>
      local_binding V n = None \<and> (\<exists>u \<in> set ancestors. local_binding u n \<noteq> None)) \<and>
   (\<forall>x. SetValueForSymbol B (V # ancestors) n v = Inl x \<longrightarrow>
      x = (RedefinitionOfConstant n, V # ancestors)) \<and>
   (\<forall>ch'. SetValueForSymbol B (V # ancestors) n v = Inr ch' \<longrightarrow>
      (\<exists>V'. ch' = V' # ancestors \<and> table_type V' = table_type V \<and>
         local_binding V' n = Some (copy_unless_unique v) \<and>
         (wf_table V \<longrightarrow>
            wf_table V' \<and> (\<forall>m. m \<noteq> n \<longrightarrow> local_binding V' m = local_binding V m))))"
proof (intro conjI allI impI)
  show "(\<exists>x. SetValueForSymbol B (V # ancestors) n v = Inl x) \<longleftrightarrow>
      local_binding V n = None \<and> (\<exists>u \<in> set ancestors. local_binding u n \<noteq> None)"
    by (simp add: set_symbol_Inl ContainsSymbol_set)
next
  fix x assume "SetValueForSymbol B (V # ancestors) n v = Inl x"
  then show "x = (RedefinitionOfConstant n, V # ancestors)"
    by (simp add: set_symbol_Inl)
next
  fix ch' assume "SetValueForSymbol B (V # ancestors) n v = Inr ch'"
  then have "set_symbol B V ancestors n (copy_unless_unique v) = Inr ch'" by simp
  from set_symbol_Inr [OF this]
  show "\<exists>V'. ch' = V' # ancestors \<and> table_type V' = table_type V \<and>
         local_binding V' n = Some (copy_unless_unique v) \<and>
         (wf_table V \<longrightarrow>
            wf_table V' \<and> (\<forall>m. m \<noteq> n \<longrightarrow> local_binding V' m = local_binding V m))"
    by blast
qed

theorem SetValueForSymbol_redefinition_witness:
  "SetValueForSymbol build2 [array_table kVariablesTable [], intrinsic_PI] 3 (shared_int 4 1)
     = Inl (RedefinitionOfConstant 3, [array_table kVariablesTable [], intrinsic_PI]) \<and>
   GetValue [array_table kVariablesTable [], intrinsic_PI] 3 = Inr (shared_int 314 1) \<and>
   SetValueForSymbol build2 [array_table kVariablesTable [], intrinsic_PI] 9 (shared_int 4 1)
     = Inr [array_table kVariablesTable [(9, shared_int 4 1)], intrinsic_PI] \<and>
   wf_table (array_table kVariablesTable [])"
  using SetValueForSymbol_redefinition
    [of build2 "array_table kVariablesTable []" "[intrinsic_PI]" 3 "shared_int 4 1"]
    SetValueForSymbol_redefinition
    [of build2 "array_table kVariablesTable []" "[intrinsic_PI]" 9 "shared_int 4 1"]
  by (simp add: build2_def array_table_def intrinsic_PI_def shared_int_def set_symbol_def
      find_slot_def copy_unless_unique_def local_binding_def wf_table_def)

section \<open>The switch from the internal array to the hash table\<close>



section \<open>No invisible value is stored\<close>



section \<open>Removal of a symbol\<close>

text \<open>
  C5. \<^verbatim>\<open>_RemoveSymbol\<close> acts on the nearest table of the chain that holds the name.
  When that table is the intrinsic constants table the removal raises a termination
  whatever the flag is; when it is a defined constants table it raises one if the flag is
  false and removes the binding if the flag is true; when it is a variables table it
  removes the binding. (When no table holds the name the call returns and changes nothing.)
\<close>

theorem RemoveSymbol_nearest_holder:
  "(case nearest_holder ch n of
      None \<Rightarrow> RemoveSymbol ch n rc = Inr ch
    | Some t \<Rightarrow>
        (case table_type t of
           kEidosIntrinsicConstantsTable \<Rightarrow>
             RemoveSymbol ch n rc = Inl (IntrinsicNotRemovable n, ch)
         | kEidosDefinedConstantsTable \<Rightarrow>
             if rc then removed_from_nearest ch n (RemoveSymbol ch n rc)
             else RemoveSymbol ch n rc = Inl (ConstantNotRemovable n, ch)
         | kVariablesTable \<Rightarrow> removed_from_nearest ch n (RemoveSymbol ch n rc)))"
proof (induction ch)
  case Nil
  then show ?case by (simp add: nearest_holder_def)
next
  case (Cons t ch)
  show ?case
  proof (cases "local_binding t n = None")
    case True
    note skip = RemoveSymbol_skip [OF True, of ch rc]
    show ?thesis
    proof (cases "nearest_holder ch n")
      case None
      with Cons True skip show ?thesis by (simp add: nearest_holder_Cons)
    next
      case (Some u)
      have lift: "removed_from_nearest (t # ch) n (RemoveSymbol (t # ch) n rc)"
        if "removed_from_nearest ch n (RemoveSymbol ch n rc)"
      proof -
        from removed_from_nearest_Inr [OF that] obtain p' where p': "RemoveSymbol ch n rc = Inr p'"
          by blast
        with that removed_from_nearest_Cons [OF True, of ch p'] skip show ?thesis by simp
      qed
      from Cons Some True skip lift show ?thesis
        by (cases "table_type u") (auto simp: nearest_holder_Cons simp del: RemoveSymbol.simps)
    qed
  next
    case False
    then have nh: "nearest_holder (t # ch) n = Some t" by (simp add: nearest_holder_Cons)
    have rm: "removed_from_nearest (t # ch) n (RemoveSymbol (t # ch) n rc)"
      if "removal_refused t n rc = None"
    proof -
      from RemoveSymbol_here [OF False that, of ch]
      obtain t' where t': "RemoveSymbol (t # ch) n rc = Inr (t' # ch)"
        "table_type t' = table_type t" "using_internal_symbols t' = using_internal_symbols t"
        "wf_table t \<longrightarrow> wf_table t' \<and> local_binding t' n = None \<and>
              (\<forall>m. m \<noteq> n \<longrightarrow> local_binding t' m = local_binding t m)"
        by blast
      show ?thesis
        unfolding removed_from_nearest_def
        using t' False
        by (intro exI [of _ "[]"] exI [of _ t] exI [of _ t'] exI [of _ ch]) simp
    qed
    show ?thesis
    proof (cases "removal_refused t n rc")
      case None
      with rm nh show ?thesis
        by (cases "table_type t")
           (auto simp: removal_refused_cases split: if_splits simp del: RemoveSymbol.simps)
    next
      case (Some e)
      from RemoveSymbol_refused [OF False Some, of ch] Some nh show ?thesis
        by (cases "table_type t")
           (auto simp: removal_refused_cases split: if_splits simp del: RemoveSymbol.simps)
    qed
  qed
qed

theorem RemoveSymbol_nearest_holder_witness:
  "RemoveSymbol [variables_x, defined_G, intrinsic_PI] 3 True
     = Inl (IntrinsicNotRemovable 3, [variables_x, defined_G, intrinsic_PI]) \<and>
   RemoveSymbol [variables_x, defined_G, intrinsic_PI] 3 False
     = Inl (IntrinsicNotRemovable 3, [variables_x, defined_G, intrinsic_PI]) \<and>
   RemoveSymbol [variables_x, defined_G, intrinsic_PI] 7 False
     = Inl (ConstantNotRemovable 7, [variables_x, defined_G, intrinsic_PI]) \<and>
   RemoveSymbol [variables_x, defined_G, intrinsic_PI] 7 True
     = Inr [variables_x, array_table kEidosDefinedConstantsTable [(8, shared_int 20 1)],
            intrinsic_PI] \<and>
   RemoveSymbol [variables_x, defined_G, intrinsic_PI] 9 False
     = Inr [array_table kVariablesTable [], defined_G, intrinsic_PI] \<and>
   wf_table defined_G \<and> wf_table variables_x"
  using RemoveSymbol_nearest_holder [of "[variables_x, defined_G, intrinsic_PI]" 3 True]
    RemoveSymbol_nearest_holder [of "[variables_x, defined_G, intrinsic_PI]" 7 True]
    RemoveSymbol_nearest_holder [of "[variables_x, defined_G, intrinsic_PI]" 9 False]
  by (simp add: variables_x_def defined_G_def intrinsic_PI_def array_table_def shared_int_def
      find_slot_def remove_slot_def removal_refused_def wf_table_def)

section \<open>Definition of a constant\<close>




section \<open>C7: constants from the command line\<close>



section \<open>The terminator\<close>

text \<open>
  C8, as amended. In throws mode the terminator writes a line end to the termination
  stream and throws a runtime error whose message is the fixed text
  "A runtime error occurred in Eidos"; the accumulated diagnostic stays in the termination
  stream. \<^verbatim>\<open>EidosGetTrimmedRaiseMessage\<close> then returns it without the line breaks at
  its end, or, when it is empty or made of line breaks only, as it is with the line end
  that was written; it leaves the stream empty.

  In exits mode the terminator writes a line end to standard error (and the backtrace, if
  asked) and exits with \<^verbatim>\<open>EXIT_FAILURE\<close>, which is not zero. Before it exits, when a
  script that is not empty and offsets \<open>0 \<le> start \<le> end \<le> length\<close> are on record, it
  writes the excerpt \<^const>\<open>script_excerpt\<close> and records the line number and the offset
  within the line: the header "Error on script line L, character C:", where the line
  starts after the last line break before \<open>start\<close>, \<open>L\<close> is one more than the number of
  newlines before the line and \<open>C\<close> is \<open>start\<close> less the start of the line; then the line
  up to its first line break, tabs shown as three blanks; then one caret for each offset
  from \<open>start\<close> to \<open>end\<close>, under the offset \<open>start\<close> of the line. With no script or no
  such offsets on record it writes no excerpt. With an empty script and such offsets on
  record the excerpt reads outside the script, and the model has no result.
\<close>

theorem terminator_throws_or_exits:
  "(gEidosTerminateThrows g \<longrightarrow>
      terminate bt (EIDOS_TERMINATION g) pb g =
        Some (runtime_error ''A runtime error occurred in Eidos'', marker_emitted bt pb g) \<and>
      gEidosTermination (marker_emitted bt pb g) = gEidosTermination g @ endl \<and>
      EidosGetTrimmedRaiseMessage (marker_emitted bt pb g) =
        (if without_trailing_breaks (gEidosTermination g) = [] then gEidosTermination g @ endl
         else without_trailing_breaks (gEidosTermination g),
         (marker_emitted bt pb g)\<lparr>gEidosTermination := []\<rparr>)) \<and>
   (\<not> gEidosTerminateThrows g \<longrightarrow>
      EXIT_FAILURE \<noteq> 0 \<and>
      terminate bt (EIDOS_TERMINATION g) pb g =
        (case gEidosCurrentScript g of
           Some s \<Rightarrow>
             if position_recorded g then
               if s = [] then None
               else Some (exit_with EXIT_FAILURE,
                      g\<lparr>standard_error :=
                          standard_error g @ endl @ (if pb then bt else []) @
                          script_excerpt s (gEidosCharacterStartOfError g)
                            (gEidosCharacterEndOfError g) (gEidosExecutingRuntimeScript g),
                        gEidosErrorLine := error_line_number s (gEidosCharacterStartOfError g),
                        gEidosErrorLineCharacter :=
                          gEidosCharacterStartOfError g
                          - int (error_line_start s (gEidosCharacterStartOfError g))\<rparr>)
             else Some (exit_with EXIT_FAILURE,
                    g\<lparr>standard_error := standard_error g @ endl @ (if pb then bt else [])\<rparr>)
         | None \<Rightarrow>
             Some (exit_with EXIT_FAILURE,
               g\<lparr>standard_error := standard_error g @ endl @ (if pb then bt else [])\<rparr>)))"
proof (intro conjI impI)
  assume th: "gEidosTerminateThrows g"
  then show "terminate bt (EIDOS_TERMINATION g) pb g =
        Some (runtime_error ''A runtime error occurred in Eidos'', marker_emitted bt pb g)"
    by (rule terminate_throws)
  show "gEidosTermination (marker_emitted bt pb g) = gEidosTermination g @ endl"
    by (simp add: marker_emitted_def)
  have "gEidosTerminateThrows (marker_emitted bt pb g)"
    using th by (simp add: marker_emitted_def)
  from EidosGetTrimmedRaiseMessage_throws [OF this]
  show "EidosGetTrimmedRaiseMessage (marker_emitted bt pb g) =
        (if without_trailing_breaks (gEidosTermination g) = [] then gEidosTermination g @ endl
         else without_trailing_breaks (gEidosTermination g),
         (marker_emitted bt pb g)\<lparr>gEidosTermination := []\<rparr>)"
    by (simp add: marker_emitted_def without_trailing_breaks_endl)
next
  show "EXIT_FAILURE \<noteq> 0" by (simp add: EXIT_FAILURE_def)
next
  assume "\<not> gEidosTerminateThrows g"
  then show "terminate bt (EIDOS_TERMINATION g) pb g =
        (case gEidosCurrentScript g of
           Some s \<Rightarrow>
             if position_recorded g then
               if s = [] then None
               else Some (exit_with EXIT_FAILURE,
                      g\<lparr>standard_error :=
                          standard_error g @ endl @ (if pb then bt else []) @
                          script_excerpt s (gEidosCharacterStartOfError g)
                            (gEidosCharacterEndOfError g) (gEidosExecutingRuntimeScript g),
                        gEidosErrorLine := error_line_number s (gEidosCharacterStartOfError g),
                        gEidosErrorLineCharacter :=
                          gEidosCharacterStartOfError g
                          - int (error_line_start s (gEidosCharacterStartOfError g))\<rparr>)
             else Some (exit_with EXIT_FAILURE,
                    g\<lparr>standard_error := standard_error g @ endl @ (if pb then bt else [])\<rparr>)
         | None \<Rightarrow>
             Some (exit_with EXIT_FAILURE,
               g\<lparr>standard_error := standard_error g @ endl @ (if pb then bt else [])\<rparr>))"
    by (rule terminate_exits_excerpt)
qed

text \<open>
  Instances. Thrown, the diagnostic "ERROR (f): bad." stays in the stream and is returned
  without its line end. On exit, the script \<^verbatim>\<open>x = 1 + ;\<close> with the offsets of its
  semicolon on record gives the caret under the semicolon; and in a script of three lines
  whose second line starts with a tab and ends with a carriage return, the semicolon at
  offset 16 is character 13 of line 2, shown under fifteen blanks.
\<close>

theorem terminator_throws_or_exits_witness:
  "gEidosTerminateThrows raise_thrown \<and>
   terminate [] (EIDOS_TERMINATION raise_thrown) False raise_thrown
     = Some (runtime_error ''A runtime error occurred in Eidos'',
             raise_thrown\<lparr>gEidosTermination := ''ERROR (f): bad.'' @ endl\<rparr>) \<and>
   EidosGetTrimmedRaiseMessage (raise_thrown\<lparr>gEidosTermination := ''ERROR (f): bad.'' @ endl\<rparr>)
     = (''ERROR (f): bad.'', raise_thrown\<lparr>gEidosTermination := []\<rparr>) \<and>
   position_recorded parse_error_exit \<and>
   terminate [] (EIDOS_TERMINATION parse_error_exit) False parse_error_exit
     = Some (exit_with 1,
         parse_error_exit
           \<lparr>standard_error :=
              ''ERROR (Parse): unexpected token.'' @ endl @ endl @
              ''Error on script line 1, character 8:'' @ endl @ endl @
              ''x = 1 + ;'' @ endl @
              ''        ^'' @ endl,
            gEidosErrorLine := 1, gEidosErrorLineCharacter := 8\<rparr>) \<and>
   position_recorded second_line_exit \<and>
   terminate ''(backtrace)'' (EIDOS_TERMINATION second_line_exit) True second_line_exit
     = Some (exit_with 1,
         second_line_exit
           \<lparr>standard_error :=
              ''ERROR (Parse): unexpected token.'' @ endl @ ''(backtrace)'' @ endl @
              ''Error on script line 2, character 13:'' @ endl @ endl @
              ''   value = 1 + ;'' @ endl @
              ''               ^'' @ endl,
            gEidosErrorLine := 2, gEidosErrorLineCharacter := 13\<rparr>)"
proof -
  have th: "gEidosTerminateThrows raise_thrown" by (simp add: raise_thrown_def)
  have m: "marker_emitted [] False raise_thrown
             = raise_thrown\<lparr>gEidosTermination := ''ERROR (f): bad.'' @ endl\<rparr>"
    by (simp add: marker_emitted_def raise_thrown_def)
  have w: "without_trailing_breaks (gEidosTermination raise_thrown) = ''ERROR (f): bad.''"
    by code_simp
  from terminator_throws_or_exits [of raise_thrown "[]" False] th
  have a: "terminate [] (EIDOS_TERMINATION raise_thrown) False raise_thrown =
        Some (runtime_error ''A runtime error occurred in Eidos'',
              marker_emitted [] False raise_thrown)"
    and b: "EidosGetTrimmedRaiseMessage (marker_emitted [] False raise_thrown) =
        (if without_trailing_breaks (gEidosTermination raise_thrown) = []
         then gEidosTermination raise_thrown @ endl
         else without_trailing_breaks (gEidosTermination raise_thrown),
         (marker_emitted [] False raise_thrown)\<lparr>gEidosTermination := []\<rparr>)"
    by blast+
  have b': "EidosGetTrimmedRaiseMessage
              (raise_thrown\<lparr>gEidosTermination := ''ERROR (f): bad.'' @ endl\<rparr>)
            = (''ERROR (f): bad.'', raise_thrown\<lparr>gEidosTermination := []\<rparr>)"
    using b unfolding m w by simp
  have p: "position_recorded parse_error_exit"
    by (simp add: position_recorded_def parse_error_exit_def)
  have q: "position_recorded second_line_exit"
    by (simp add: position_recorded_def second_line_exit_def)
  have x1: "\<not> gEidosTerminateThrows parse_error_exit"
    and s1: "gEidosCurrentScript parse_error_exit = Some ''x = 1 + ;''"
    by (simp_all add: parse_error_exit_def)
  have x2: "\<not> gEidosTerminateThrows second_line_exit"
    and s2: "gEidosCurrentScript second_line_exit =
               Some (''a;'' @ [CHR 0x0A] @ [CHR 0x09] @ ''value = 1 + ;'' @ [CHR 0x0D] @ ''b;'')"
    by (simp_all add: second_line_exit_def)
  have v1: "parse_error_exit
      \<lparr>standard_error :=
         standard_error parse_error_exit @ endl @ (if False then [] else []) @
         script_excerpt ''x = 1 + ;'' (gEidosCharacterStartOfError parse_error_exit)
           (gEidosCharacterEndOfError parse_error_exit)
           (gEidosExecutingRuntimeScript parse_error_exit),
       gEidosErrorLine :=
         error_line_number ''x = 1 + ;'' (gEidosCharacterStartOfError parse_error_exit),
       gEidosErrorLineCharacter :=
         gEidosCharacterStartOfError parse_error_exit
         - int (error_line_start ''x = 1 + ;'' (gEidosCharacterStartOfError parse_error_exit))\<rparr>
     = parse_error_exit
           \<lparr>standard_error :=
              ''ERROR (Parse): unexpected token.'' @ endl @ endl @
              ''Error on script line 1, character 8:'' @ endl @ endl @
              ''x = 1 + ;'' @ endl @
              ''        ^'' @ endl,
            gEidosErrorLine := 1, gEidosErrorLineCharacter := 8\<rparr>"
    by code_simp
  have v2: "second_line_exit
      \<lparr>standard_error :=
         standard_error second_line_exit @ endl @ (if True then ''(backtrace)'' else []) @
         script_excerpt (''a;'' @ [CHR 0x0A] @ [CHR 0x09] @ ''value = 1 + ;'' @ [CHR 0x0D] @ ''b;'')
           (gEidosCharacterStartOfError second_line_exit)
           (gEidosCharacterEndOfError second_line_exit)
           (gEidosExecutingRuntimeScript second_line_exit),
       gEidosErrorLine :=
         error_line_number
           (''a;'' @ [CHR 0x0A] @ [CHR 0x09] @ ''value = 1 + ;'' @ [CHR 0x0D] @ ''b;'')
           (gEidosCharacterStartOfError second_line_exit),
       gEidosErrorLineCharacter :=
         gEidosCharacterStartOfError second_line_exit
         - int (error_line_start
                  (''a;'' @ [CHR 0x0A] @ [CHR 0x09] @ ''value = 1 + ;'' @ [CHR 0x0D] @ ''b;'')
                  (gEidosCharacterStartOfError second_line_exit))\<rparr>
     = second_line_exit
           \<lparr>standard_error :=
              ''ERROR (Parse): unexpected token.'' @ endl @ ''(backtrace)'' @ endl @
              ''Error on script line 2, character 13:'' @ endl @ endl @
              ''   value = 1 + ;'' @ endl @
              ''               ^'' @ endl,
            gEidosErrorLine := 2, gEidosErrorLineCharacter := 13\<rparr>"
    by code_simp
  from terminator_throws_or_exits [of parse_error_exit "[]" False] x1 p
  have e1: "terminate [] (EIDOS_TERMINATION parse_error_exit) False parse_error_exit
     = Some (exit_with 1,
         parse_error_exit
           \<lparr>standard_error :=
              ''ERROR (Parse): unexpected token.'' @ endl @ endl @
              ''Error on script line 1, character 8:'' @ endl @ endl @
              ''x = 1 + ;'' @ endl @
              ''        ^'' @ endl,
            gEidosErrorLine := 1, gEidosErrorLineCharacter := 8\<rparr>)"
    unfolding s1 using v1 by (simp add: EXIT_FAILURE_def)
  from terminator_throws_or_exits [of second_line_exit "''(backtrace)''" True] x2 q
  have e2: "terminate ''(backtrace)'' (EIDOS_TERMINATION second_line_exit) True second_line_exit
     = Some (exit_with 1,
         second_line_exit
           \<lparr>standard_error :=
              ''ERROR (Parse): unexpected token.'' @ endl @ ''(backtrace)'' @ endl @
              ''Error on script line 2, character 13:'' @ endl @ endl @
              ''   value = 1 + ;'' @ endl @
              ''               ^'' @ endl,
            gEidosErrorLine := 2, gEidosErrorLineCharacter := 13\<rparr>)"
    unfolding s2 using v2 by (simp add: EXIT_FAILURE_def)
  from th a [unfolded m] b' p e1 q e2 show ?thesis by (intro conjI)
qed

text \<open>
  The claim as it was stated fails: the error thrown for the accumulated diagnostic
  "ERROR (f): bad." carries the fixed text, not the diagnostic; and in exits mode with no
  script on record the terminator prints the diagnostic's line end and no excerpt.
\<close>

theorem terminator_counterexample:
  "terminate [] (EIDOS_TERMINATION raise_thrown) False raise_thrown
     = Some (runtime_error ''A runtime error occurred in Eidos'',
             raise_thrown\<lparr>gEidosTermination := ''ERROR (f): bad.'' @ endl\<rparr>) \<and>
   gEidosTermination raise_thrown = ''ERROR (f): bad.'' \<and>
   ''A runtime error occurred in Eidos'' \<noteq> ''ERROR (f): bad.'' \<and>
   terminate [] (EIDOS_TERMINATION raise_exit) False raise_exit
     = Some (exit_with 1, raise_exit\<lparr>standard_error := ''ERROR (f): bad.'' @ endl\<rparr>)"
  by code_simp

section \<open>Runs handed out by the pool\<close>

text \<open>
  C9. After any sequence of takings, frees, releases and writes that keeps to the
  discipline of the funnels, the run that \<^verbatim>\<open>NewMutationRun\<close> hands out has size 0 and
  is not on the free list any more. A run constructed because the free list is empty has
  the count 0 of its member initializer; \<^verbatim>\<open>FreeMutationRun\<close> sets the count of the run
  to 0 and puts it at the back of the free list, from where the next
  \<^verbatim>\<open>NewMutationRun\<close> takes it, still with size 0.
\<close>

theorem NewMutationRun_hands_out_empty_run:
  "(\<forall>st. pool_run pool_start ops = Some st \<longrightarrow>
      size_of_run (snd (NewMutationRun st)) (fst (NewMutationRun st)) = 0 \<and>
      in_use (snd (NewMutationRun st)) (fst (NewMutationRun st))) \<and>
   (s_freed_mutation_runs st0 = [] \<longrightarrow>
      run_heap (snd (NewMutationRun st0)) ! fst (NewMutationRun st0) = MutationRun_constructed \<and>
      mutation_count MutationRun_constructed = 0) \<and>
   (p < length (run_heap st0) \<longrightarrow>
      size_of_run (FreeMutationRun st0 p) p = 0 \<and>
      s_freed_mutation_runs (FreeMutationRun st0 p) = s_freed_mutation_runs st0 @ [p] \<and>
      fst (NewMutationRun (FreeMutationRun st0 p)) = p \<and>
      size_of_run (snd (NewMutationRun (FreeMutationRun st0 p))) p = 0)"
proof (intro conjI allI impI)
  fix st assume "pool_run pool_start ops = Some st"
  from pool_run_ok [OF pool_ok_start this] have "pool_ok st" .
  from NewMutationRun_ok [OF this]
  show "size_of_run (snd (NewMutationRun st)) (fst (NewMutationRun st)) = 0"
    and "in_use (snd (NewMutationRun st)) (fst (NewMutationRun st))" by simp_all
next
  assume "s_freed_mutation_runs st0 = []"
  then show "run_heap (snd (NewMutationRun st0)) ! fst (NewMutationRun st0) = MutationRun_constructed"
    by (simp add: NewMutationRun_def)
  show "mutation_count MutationRun_constructed = 0" by (simp add: MutationRun_constructed_def)
next
  assume p: "p < length (run_heap st0)"
  then show "size_of_run (FreeMutationRun st0 p) p = 0"
    by (simp add: FreeMutationRun_def size_of_run_def)
  show "s_freed_mutation_runs (FreeMutationRun st0 p) = s_freed_mutation_runs st0 @ [p]"
    by (simp add: FreeMutationRun_def)
  show "fst (NewMutationRun (FreeMutationRun st0 p)) = p"
    by (simp add: FreeMutationRun_def NewMutationRun_def)
  from p show "size_of_run (snd (NewMutationRun (FreeMutationRun st0 p))) p = 0"
    by (simp add: FreeMutationRun_def NewMutationRun_def size_of_run_def)
qed

theorem NewMutationRun_hands_out_empty_run_witness:
  "pool_run pool_start [Take, Overwrite 0 run_of_three, Free 0] = Some pool_after_free \<and>
   NewMutationRun pool_after_free
     = (0, \<lparr>run_heap = [run_of_three\<lparr>mutation_count := 0\<rparr>], s_freed_mutation_runs = []\<rparr>) \<and>
   size_of_run (snd (NewMutationRun pool_after_free)) (fst (NewMutationRun pool_after_free)) = 0 \<and>
   size_of_run \<lparr>run_heap = [run_of_three], s_freed_mutation_runs = []\<rparr> 0 = 3 \<and>
   size_of_run (FreeMutationRun \<lparr>run_heap = [run_of_three], s_freed_mutation_runs = []\<rparr> 0) 0 = 0"
proof -
  have r: "pool_run pool_start [Take, Overwrite 0 run_of_three, Free 0] = Some pool_after_free"
    by (simp add: pool_start_def NewMutationRun_def in_use_def FreeMutationRun_def
        pool_after_free_def MutationRun_constructed_def run_of_three_def)
  from NewMutationRun_hands_out_empty_run
    [of "[Take, Overwrite 0 run_of_three, Free 0]"
        "\<lparr>run_heap = [run_of_three], s_freed_mutation_runs = []\<rparr>" 0] r
  show ?thesis
    by (simp add: NewMutationRun_def pool_after_free_def size_of_run_def run_of_three_def
        FreeMutationRun_def)
qed

section \<open>Interning and looking up strings\<close>

text \<open>
  C10. Run the interner from its start through any registrations and internings, fewer
  than the counter has room for before it wraps. Then for every identifier that a call of
  \<^verbatim>\<open>EidosGlobalStringIDForString\<close> returned for a string (or that a registration
  recorded for it) \<^verbatim>\<open>StringForEidosGlobalStringID\<close> returns that string, and for every
  identifier that was never handed out it returns \<^verbatim>\<open>"undefined"\<close>; it has no path
  that raises.
\<close>

theorem interner_round_trip:
  assumes "unat L + length ops < 2 ^ 32"
    and "run_interner L (interner_start L) ops = (g, issued)"
  shows "(\<forall>(i, s) \<in> set issued. StringForEidosGlobalStringID g i = s) \<and>
         (\<forall>i. i \<notin> fst ` set issued \<longrightarrow> StringForEidosGlobalStringID g i = gEidosStr_undefined)"
proof -
  have room: "unat (gNextUnusedID (interner_start L)) + length ops < 2 ^ 32"
    using assms(1) by (simp add: interner_start_def)
  from run_interner_log [OF interner_ok_start room assms(2)]
  have m: "\<forall>j t. gIDToString g j = Some t \<longleftrightarrow> (j, t) \<in> set issued"
    by (simp add: interner_start_def)
  have "StringForEidosGlobalStringID g i = s" if "(i, s) \<in> set issued" for i s
  proof -
    from that m have "gIDToString g i = Some s" by blast
    then show ?thesis by (simp add: StringForEidosGlobalStringID_def)
  qed
  moreover have "StringForEidosGlobalStringID g i = gEidosStr_undefined"
    if "i \<notin> fst ` set issued" for i
  proof (cases "gIDToString g i")
    case None
    then show ?thesis by (simp add: StringForEidosGlobalStringID_def)
  next
    case (Some t)
    with m have "(i, t) \<in> set issued" by simp
    with that show ?thesis by force
  qed
  ultimately show ?thesis by auto
qed

theorem interner_round_trip_witness:
  "unat (3 :: 32 word) + length startup_ops < 2 ^ 32 \<and>
   run_interner 3 (interner_start 3) startup_ops
     = (startup_result, [(1, ''T''), (3, ''x''), (4, ''y''), (3, ''x'')]) \<and>
   StringForEidosGlobalStringID startup_result 1 = ''T'' \<and>
   StringForEidosGlobalStringID startup_result 3 = ''x'' \<and>
   StringForEidosGlobalStringID startup_result 4 = ''y'' \<and>
   StringForEidosGlobalStringID startup_result 2 = ''undefined'' \<and>
   StringForEidosGlobalStringID startup_result 5 = ''undefined''"
proof -
  have a: "unat (3 :: 32 word) + length startup_ops < 2 ^ 32"
    by (simp add: startup_ops_def)
  have b: "run_interner 3 (interner_start 3) startup_ops
      = (startup_result, [(1, ''T''), (3, ''x''), (4, ''y''), (3, ''x'')])"
    by (simp add: startup_ops_def interner_start_def EidosGlobalStringIDForString_def
        Eidos_RegisterStringForGlobalID_def startup_result_def word_le_nat_alt fun_upd_twist)
  from interner_round_trip [OF a b] a b show ?thesis
    by (simp add: gEidosStr_undefined_def)
qed

end
